theory Spec2Isabelle
  imports Complex_Main
begin

section \<open>The Timekeeping scheduler\<close>

text \<open>
  The repository holds two revisions of \<^verbatim>\<open>Scheduler.cpp\<close>. The one under
  \<^verbatim>\<open>src/src/Scheduler.cpp\<close> records cancellations in a \<^verbatim>\<open>std::set<int>\<close>
  (\<^verbatim>\<open>canceledCallbacks\<close>); the one under \<^verbatim>\<open>src/unnamed/part_000\<close> keeps a
  \<^verbatim>\<open>std::map<int, bool>\<close> (\<^verbatim>\<open>isCallbackCanceled\<close>). Both are embedded here,
  function by function; the definitions of the first carry the suffix \<open>_set\<close>, those of
  the second the suffix \<open>_map\<close>. What the two share (\<^verbatim>\<open>SetClock\<close>, \<^verbatim>\<open>WakeUp\<close>)
  is defined once, on the common part of the state.

  Conventions of the embedding:
  \<^item> \<^verbatim>\<open>double\<close> values (due times, clock readings) are real numbers; the rounding of
    floating-point arithmetic is not modelled.
  \<^item> \<^verbatim>\<open>int\<close> is a 32-bit two's complement integer. Tokens are HOL integers inside
    that range, and the increment of the token counter wraps (\<open>int32\<close>).
  \<^item> Undefined behaviour that the code can reach is a value of type \<open>fault\<close>: calling
    through a null clock pointer, and converting a \<^verbatim>\<open>double\<close> outside the range of
    \<^verbatim>\<open>int\<close> to \<^verbatim>\<open>int\<close>.
  \<^item> A callback is a value of an arbitrary type \<open>'cb\<close>; the worker reports which callback
    it calls, and whether its lock is held at that moment, instead of running it.
  \<^item> One pass through the body of the worker's \<^verbatim>\<open>while\<close> loop is one step. The
    condition variable is not modelled: \<^verbatim>\<open>notify_one\<close> changes no state, and a wait
    ends the step.
\<close>

subsection \<open>Machine integers\<close>

definition INT_MAX :: int where
  "INT_MAX = 2147483647"

definition INT_MIN :: int where
  "INT_MIN = - 2147483648"

definition int32 :: "int \<Rightarrow> int" where
  \<comment> \<open>the value of a 32-bit \<^verbatim>\<open>int\<close> after an arithmetic result \<open>x\<close> is stored in it\<close>
  "int32 x = (x + 2147483648) mod 4294967296 - 2147483648"

datatype fault = Null_clock | Timeout_not_int

definition int_of_double :: "real \<Rightarrow> fault + int" where
  \<comment> \<open>the cast \<^verbatim>\<open>(int)x\<close>: truncation toward zero, undefined when the result does not fit\<close>
  "int_of_double x =
     (let t = (if x < 0 then \<lceil>x\<rceil> else \<lfloor>x\<rfloor>)
      in if INT_MIN \<le> t \<and> t \<le> INT_MAX then Inr t else Inl Timeout_not_int)"

definition ceil :: "real \<Rightarrow> real" where
  \<comment> \<open>\<^verbatim>\<open>ceil\<close> of \<^verbatim>\<open>math.h\<close>: the result is again a \<^verbatim>\<open>double\<close>\<close>
  "ceil x = of_int \<lceil>x\<rceil>"

subsection \<open>The data\<close>

record 'cb ScheduledCallback =
  token :: int
  due :: real
  callback :: 'cb

text \<open>
  \<^verbatim>\<open>std::priority_queue<ScheduledCallback, std::vector<...>, std::greater<...>>\<close>
  with \<^verbatim>\<open>operator>\<close> comparing \<open>due\<close>: the library is not part of the repository, so
  the queue is modelled by its contract. It is the list of its elements in the order of
  insertion; \<open>pq_top\<close> is an element of least \<open>due\<close>, and \<open>pq_pop\<close> removes that
  element. Among elements of equal \<open>due\<close> the library fixes no order; the model takes
  the one inserted first.
\<close>

definition pq_empty :: "'cb ScheduledCallback list \<Rightarrow> bool" where
  "pq_empty q = (q = [])"

definition pq_push :: "'cb ScheduledCallback \<Rightarrow> 'cb ScheduledCallback list \<Rightarrow> 'cb ScheduledCallback list" where
  "pq_push e q = q @ [e]"

definition pq_top :: "'cb ScheduledCallback list \<Rightarrow> 'cb ScheduledCallback" where
  "pq_top q = arg_min_list due q"

definition pq_pop :: "'cb ScheduledCallback list \<Rightarrow> 'cb ScheduledCallback list" where
  "pq_pop q = remove1 (pq_top q) q"

text \<open>
  The private properties of a scheduler (\<^verbatim>\<open>Scheduler::Impl\<close>). \<open>clock\<close> is the shared
  pointer, \<open>None\<close> when it is null. The thread, the condition variable and the mutex are
  not state of the model.
\<close>

record ('cb, 'c) Impl =
  clock :: "'c option"
  scheduledCallbacks :: "'cb ScheduledCallback list"
  stopWorker :: bool
  nextToken :: int

record ('cb, 'c) Impl_set = "('cb, 'c) Impl" +
  canceledCallbacks :: "int set"

record ('cb, 'c) Impl_map = "('cb, 'c) Impl" +
  isCallbackCanceled :: "int \<rightharpoonup> bool"

definition Impl_set_new :: "('cb, 'c) Impl_set" where
  "Impl_set_new =
     \<lparr>clock = None, scheduledCallbacks = [], stopWorker = False, nextToken = 1,
      canceledCallbacks = {}\<rparr>"

definition Impl_map_new :: "('cb, 'c) Impl_map" where
  "Impl_map_new =
     \<lparr>clock = None, scheduledCallbacks = [], stopWorker = False, nextToken = 1,
      isCallbackCanceled = Map.empty\<rparr>"

text \<open>
  What one pass of the worker does. \<open>Firing e tr\<close> carries the entry that was taken and
  the statements run around its callback: in the revision with the map the worker's
  \<^verbatim>\<open>unique_lock\<close> is released before the call and taken again after it.
\<close>

datatype 'cb stmt = Unlock | Invoke 'cb | Lock

datatype 'cb transition =
    Stopped
  | Idle
  | Waiting int
  | Firing "'cb ScheduledCallback" "'cb stmt list"
  | Draining

fun owns_lock :: "bool \<Rightarrow> 'cb stmt list \<Rightarrow> bool" where
  \<comment> \<open>whether the worker owns its lock after the statements, owning it or not before\<close>
  "owns_lock b [] = b"
| "owns_lock b (Unlock # tr) = owns_lock False tr"
| "owns_lock b (Lock # tr) = owns_lock True tr"
| "owns_lock b (Invoke cb # tr) = owns_lock b tr"

fun invoked_locked :: "bool \<Rightarrow> 'cb stmt list \<Rightarrow> 'cb list" where
  \<comment> \<open>the callbacks called while the worker owns its lock\<close>
  "invoked_locked b [] = []"
| "invoked_locked b (Unlock # tr) = invoked_locked False tr"
| "invoked_locked b (Lock # tr) = invoked_locked True tr"
| "invoked_locked b (Invoke cb # tr) = (if b then cb # invoked_locked b tr else invoked_locked b tr)"

fun invoked :: "'cb stmt list \<Rightarrow> 'cb list" where
  "invoked [] = []"
| "invoked (Invoke cb # tr) = cb # invoked tr"
| "invoked (s # tr) = invoked tr"

subsection \<open>The public operations\<close>

definition SetClock :: "('cb, 'c, 'z) Impl_scheme \<Rightarrow> 'c option \<Rightarrow> ('cb, 'c, 'z) Impl_scheme" where
  "SetClock s c = s\<lparr>clock := c\<rparr>"

definition WakeUp :: "('cb, 'c, 'z) Impl_scheme \<Rightarrow> ('cb, 'c, 'z) Impl_scheme" where
  "WakeUp s = s"

definition Schedule_set :: "('cb, 'c) Impl_set \<Rightarrow> 'cb \<Rightarrow> real \<Rightarrow> int \<times> ('cb, 'c) Impl_set" where
  "Schedule_set s cb d =
     (if clock s = None then (0, s)
      else
        let t = nextToken s;
            s1 = s\<lparr>nextToken := int32 (nextToken s + 1)\<rparr>;
            scheduledCallback = \<lparr>token = t, due = d, callback = cb\<rparr>
        in (t, s1\<lparr>scheduledCallbacks := pq_push scheduledCallback (scheduledCallbacks s1)\<rparr>))"

definition Cancel_set :: "('cb, 'c) Impl_set \<Rightarrow> int \<Rightarrow> ('cb, 'c) Impl_set" where
  "Cancel_set s t = s\<lparr>canceledCallbacks := insert t (canceledCallbacks s)\<rparr>"

definition Schedule_map :: "('cb, 'c) Impl_map \<Rightarrow> 'cb \<Rightarrow> real \<Rightarrow> int \<times> ('cb, 'c) Impl_map" where
  "Schedule_map s cb d =
     (if clock s = None then (0, s)
      else
        let t = nextToken s;
            s1 = s\<lparr>nextToken := int32 (nextToken s + 1)\<rparr>;
            s2 = s1\<lparr>isCallbackCanceled := (isCallbackCanceled s1)(t \<mapsto> False)\<rparr>;
            scheduledCallback = \<lparr>token = t, due = d, callback = cb\<rparr>
        in (t, s2\<lparr>scheduledCallbacks := pq_push scheduledCallback (scheduledCallbacks s2)\<rparr>))"

definition Cancel_map :: "('cb, 'c) Impl_map \<Rightarrow> int \<Rightarrow> ('cb, 'c) Impl_map" where
  "Cancel_map s t =
     (case isCallbackCanceled s t of
        None \<Rightarrow> s
      | Some _ \<Rightarrow> s\<lparr>isCallbackCanceled := (isCallbackCanceled s)(t \<mapsto> True)\<rparr>)"

subsection \<open>The worker\<close>

text \<open>
  The body of the loop of \<^verbatim>\<open>Impl::Worker\<close>. \<open>GetCurrentTime\<close> is what the clocks
  answer at this pass.
\<close>

definition Worker_body_set ::
  "('c \<Rightarrow> real) \<Rightarrow> ('cb, 'c) Impl_set \<Rightarrow> fault + ('cb transition \<times> ('cb, 'c) Impl_set)" where
  "Worker_body_set GetCurrentTime s =
     (if pq_empty (scheduledCallbacks s) then Inr (Idle, s)
      else case clock s of
        None \<Rightarrow> Inl Null_clock
      | Some c \<Rightarrow>
          let nextInSchedule = pq_top (scheduledCallbacks s);
              now = GetCurrentTime c;
              waitTimeSeconds = due nextInSchedule - now;
              isNotCanceled = (token nextInSchedule \<notin> canceledCallbacks s)
          in if waitTimeSeconds > 0 \<and> isNotCanceled then
               (case int_of_double (ceil (waitTimeSeconds * 1000)) of
                  Inl f \<Rightarrow> Inl f
                | Inr ms \<Rightarrow> Inr (Waiting ms, s))
             else if isNotCanceled then
               Inr (Firing nextInSchedule [Invoke (callback nextInSchedule)],
                    s\<lparr>scheduledCallbacks := pq_pop (scheduledCallbacks s)\<rparr>)
             else
               Inr (Draining, s\<lparr>scheduledCallbacks := pq_pop (scheduledCallbacks s)\<rparr>))"

definition Worker_step_set ::
  "('c \<Rightarrow> real) \<Rightarrow> ('cb, 'c) Impl_set \<Rightarrow> fault + ('cb transition \<times> ('cb, 'c) Impl_set)" where
  "Worker_step_set GetCurrentTime s =
     (if stopWorker s then Inr (Stopped, s) else Worker_body_set GetCurrentTime s)"

definition index_map :: "(int \<rightharpoonup> bool) \<Rightarrow> int \<Rightarrow> bool \<times> (int \<rightharpoonup> bool)" where
  \<comment> \<open>\<^verbatim>\<open>std::map::operator[]\<close>: a missing key is inserted with the value \<^verbatim>\<open>false\<close>\<close>
  "index_map m k = (case m k of None \<Rightarrow> (False, m(k \<mapsto> False)) | Some v \<Rightarrow> (v, m))"

definition erase :: "(int \<rightharpoonup> bool) \<Rightarrow> int \<Rightarrow> (int \<rightharpoonup> bool)" where
  "erase m k = m(k := None)"

definition Worker_body_map ::
  "('c \<Rightarrow> real) \<Rightarrow> ('cb, 'c) Impl_map \<Rightarrow> fault + ('cb transition \<times> ('cb, 'c) Impl_map)" where
  "Worker_body_map GetCurrentTime s =
     (if pq_empty (scheduledCallbacks s) then Inr (Idle, s)
      else case clock s of
        None \<Rightarrow> Inl Null_clock
      | Some c \<Rightarrow>
          let nextInSchedule = pq_top (scheduledCallbacks s);
              now = GetCurrentTime c;
              waitTimeSeconds = due nextInSchedule - now;
              (canceled, m) = index_map (isCallbackCanceled s) (token nextInSchedule);
              s1 = s\<lparr>isCallbackCanceled := m\<rparr>;
              isNotCanceled = (\<not> canceled)
          in if waitTimeSeconds > 0 \<and> isNotCanceled then
               (case int_of_double (ceil (waitTimeSeconds * 1000)) of
                  Inl f \<Rightarrow> Inl f
                | Inr ms \<Rightarrow> Inr (Waiting ms, s1))
             else if isNotCanceled then
               Inr (Firing nextInSchedule [Unlock, Invoke (callback nextInSchedule), Lock],
                    s1\<lparr>isCallbackCanceled := erase (isCallbackCanceled s1) (token nextInSchedule),
                       scheduledCallbacks := pq_pop (scheduledCallbacks s1)\<rparr>)
             else
               Inr (Draining,
                    s1\<lparr>isCallbackCanceled := erase (isCallbackCanceled s1) (token nextInSchedule),
                       scheduledCallbacks := pq_pop (scheduledCallbacks s1)\<rparr>))"

definition Worker_step_map ::
  "('c \<Rightarrow> real) \<Rightarrow> ('cb, 'c) Impl_map \<Rightarrow> fault + ('cb transition \<times> ('cb, 'c) Impl_map)" where
  "Worker_step_map GetCurrentTime s =
     (if stopWorker s then Inr (Stopped, s) else Worker_body_map GetCurrentTime s)"

text \<open>
  The clock of the tests (\<^verbatim>\<open>MockClock\<close>): it answers with the time it holds.
\<close>

definition MockClock :: "real \<Rightarrow> 'c \<Rightarrow> real" where
  "MockClock currentTime c = currentTime"

subsection \<open>Sequences of calls\<close>

text \<open>
  A history of a scheduler: the calls of its public methods and the passes of its
  worker, in the order in which they take the mutex. Each call answers with a reply; a
  fault (undefined behaviour) ends the history.
\<close>

datatype ('cb, 'c) call =
    Do_SetClock "'c option"
  | Do_Schedule 'cb real
  | Do_Cancel int
  | Do_WakeUp
  | Do_Worker "'c \<Rightarrow> real"

datatype 'cb reply = Returned | Token int | Moved "'cb transition"

fun is_Schedule :: "('cb, 'c) call \<Rightarrow> bool" where
  "is_Schedule (Do_Schedule cb d) = True"
| "is_Schedule c = False"

definition schedule_calls :: "('cb, 'c) call list \<Rightarrow> nat" where
  "schedule_calls cs = length (filter is_Schedule cs)"

fun tokens :: "'cb reply list \<Rightarrow> int list" where
  \<comment> \<open>the tokens that successful calls of \<^verbatim>\<open>Schedule\<close> returned\<close>
  "tokens [] = []"
| "tokens (Token t # rs) = (if t = 0 then tokens rs else t # tokens rs)"
| "tokens (r # rs) = tokens rs"

fun fired :: "'cb reply list \<Rightarrow> 'cb ScheduledCallback list" where
  \<comment> \<open>the entries whose callbacks the worker called, in the order of the calls\<close>
  "fired [] = []"
| "fired (Moved (Firing e tr) # rs) = e # fired rs"
| "fired (r # rs) = fired rs"

fun exec_set :: "('cb, 'c) call \<Rightarrow> ('cb, 'c) Impl_set \<Rightarrow> fault + ('cb reply \<times> ('cb, 'c) Impl_set)" where
  "exec_set (Do_SetClock c) s = Inr (Returned, SetClock s c)"
| "exec_set (Do_Schedule cb d) s = (case Schedule_set s cb d of (t, s') \<Rightarrow> Inr (Token t, s'))"
| "exec_set (Do_Cancel t) s = Inr (Returned, Cancel_set s t)"
| "exec_set Do_WakeUp s = Inr (Returned, WakeUp s)"
| "exec_set (Do_Worker g) s =
     (case Worker_step_set g s of Inl f \<Rightarrow> Inl f | Inr (tr, s') \<Rightarrow> Inr (Moved tr, s'))"

fun run_set :: "('cb, 'c) call list \<Rightarrow> ('cb, 'c) Impl_set \<Rightarrow> fault + ('cb reply list \<times> ('cb, 'c) Impl_set)" where
  "run_set [] s = Inr ([], s)"
| "run_set (c # cs) s =
     (case exec_set c s of
        Inl f \<Rightarrow> Inl f
      | Inr (r, s') \<Rightarrow>
          (case run_set cs s' of Inl f \<Rightarrow> Inl f | Inr (rs, s'') \<Rightarrow> Inr (r # rs, s'')))"

fun exec_map :: "('cb, 'c) call \<Rightarrow> ('cb, 'c) Impl_map \<Rightarrow> fault + ('cb reply \<times> ('cb, 'c) Impl_map)" where
  "exec_map (Do_SetClock c) s = Inr (Returned, SetClock s c)"
| "exec_map (Do_Schedule cb d) s = (case Schedule_map s cb d of (t, s') \<Rightarrow> Inr (Token t, s'))"
| "exec_map (Do_Cancel t) s = Inr (Returned, Cancel_map s t)"
| "exec_map Do_WakeUp s = Inr (Returned, WakeUp s)"
| "exec_map (Do_Worker g) s =
     (case Worker_step_map g s of Inl f \<Rightarrow> Inl f | Inr (tr, s') \<Rightarrow> Inr (Moved tr, s'))"

fun run_map :: "('cb, 'c) call list \<Rightarrow> ('cb, 'c) Impl_map \<Rightarrow> fault + ('cb reply list \<times> ('cb, 'c) Impl_map)" where
  "run_map [] s = Inr ([], s)"
| "run_map (c # cs) s =
     (case exec_map c s of
        Inl f \<Rightarrow> Inl f
      | Inr (r, s') \<Rightarrow>
          (case run_map cs s' of Inl f \<Rightarrow> Inl f | Inr (rs, s'') \<Rightarrow> Inr (r # rs, s'')))"

subsection \<open>Conditions on states\<close>

definition clock_safe :: "('cb, 'c, 'z) Impl_scheme \<Rightarrow> bool" where
  \<comment> \<open>the worker can read the clock whenever it has to: a clock is set or nothing is pending\<close>
  "clock_safe s = (pq_empty (scheduledCallbacks s) \<or> clock s \<noteq> None)"

definition keys_match :: "('cb, 'c) Impl_map \<Rightarrow> bool" where
  \<comment> \<open>the keys of \<^verbatim>\<open>isCallbackCanceled\<close> are the tokens of the pending entries\<close>
  "keys_match s = (dom (isCallbackCanceled s) = token ` set (scheduledCallbacks s))"

definition map_inv :: "nat \<Rightarrow> ('cb, 'c) Impl_map \<Rightarrow> bool" where
  \<comment> \<open>what holds of the revision with the map after \<open>k\<close> successful calls of \<^verbatim>\<open>Schedule\<close>\<close>
  "map_inv k s =
     (keys_match s \<and> distinct (map token (scheduledCallbacks s))
      \<and> token ` set (scheduledCallbacks s) \<subseteq> {1..int k}
      \<and> nextToken s = int32 (1 + int k))"

section \<open>Facts about the model\<close>

subsection \<open>The queue and the conversion of the timeout\<close>

lemmas pq_defs = pq_empty_def pq_push_def pq_top_def pq_pop_def
lemmas int_defs = INT_MAX_def INT_MIN_def int32_def int_of_double_def ceil_def

lemma pq_top_in: "q \<noteq> [] \<Longrightarrow> pq_top q \<in> set q"
  by (simp add: pq_top_def arg_min_list_in)

lemma pq_top_least: "x \<in> set q \<Longrightarrow> due (pq_top q) \<le> due x"
proof -
  assume x: "x \<in> set q"
  then have "q \<noteq> []" by auto
  then have "due (pq_top q) = Min (due ` set q)"
    by (simp add: pq_top_def f_arg_min_list_f)
  with x show ?thesis by simp
qed

lemma set_pq_pop: "set (pq_pop q) \<subseteq> set q"
  by (simp add: pq_pop_def set_remove1_subset)

lemma tokens_pq_pop:
  "distinct (map token q) \<Longrightarrow> q \<noteq> [] \<Longrightarrow>
     token ` set (pq_pop q) = token ` set q - {token (pq_top q)}"
proof -
  assume d: "distinct (map token q)" and ne: "q \<noteq> []"
  from d have dq: "distinct q" by (simp add: distinct_map)
  have inj: "inj_on token (set q)" using d by (simp add: distinct_map)
  have top: "pq_top q \<in> set q" using ne by (rule pq_top_in)
  have "set (pq_pop q) = set q - {pq_top q}"
    using dq by (simp add: pq_pop_def)
  then have "token ` set (pq_pop q) = token ` (set q - {pq_top q})" by simp
  also have "\<dots> = token ` set q - token ` {pq_top q}"
    using inj top by (intro inj_on_image_set_diff [where C = "set q"]) auto
  finally show ?thesis by simp
qed

lemma distinct_pq_pop: "distinct (map token q) \<Longrightarrow> distinct (map token (pq_pop q))"
proof -
  assume "distinct (map token q)"
  then have "distinct q" and "inj_on token (set q)" by (simp_all add: distinct_map)
  then have "distinct (pq_pop q)" and "inj_on token (set (pq_pop q))"
    using set_pq_pop [of q] by (auto simp: pq_pop_def intro: inj_on_subset)
  then show ?thesis by (simp add: distinct_map)
qed

lemma ceil_ms_covers: "w \<le> real_of_int \<lceil>w * 1000\<rceil> / 1000"
proof -
  have "w * 1000 \<le> real_of_int \<lceil>w * 1000\<rceil>" by (rule le_of_int_ceiling)
  then show ?thesis by simp
qed

lemma int_of_double_ceil:
  "0 < w \<Longrightarrow> \<lceil>w * 1000\<rceil> \<le> INT_MAX \<Longrightarrow> int_of_double (ceil (w * 1000)) = Inr \<lceil>w * 1000\<rceil>"
proof -
  assume w: "0 < w" and le: "\<lceil>w * 1000\<rceil> \<le> INT_MAX"
  from w have "0 < w * 1000" by simp
  then have "0 < \<lceil>w * 1000\<rceil>" by (simp add: ceiling_less_iff)
  with le show ?thesis
    by (simp add: int_of_double_def ceil_def INT_MIN_def Let_def)
qed

lemma int_of_double_ceil_overflow:
  "INT_MAX < \<lceil>w * 1000\<rceil> \<Longrightarrow> int_of_double (ceil (w * 1000)) = Inl Timeout_not_int"
  by (simp add: int_of_double_def ceil_def INT_MAX_def INT_MIN_def Let_def)

lemma Worker_body_set_waiting:
  assumes "\<not> pq_empty (scheduledCallbacks s)" and "clock s = Some c"
    and "0 < due (pq_top (scheduledCallbacks s)) - g c"
    and "token (pq_top (scheduledCallbacks s)) \<notin> canceledCallbacks s"
    and "\<lceil>(due (pq_top (scheduledCallbacks s)) - g c) * 1000\<rceil> \<le> INT_MAX"
  shows "Worker_body_set g s = Inr (Waiting \<lceil>(due (pq_top (scheduledCallbacks s)) - g c) * 1000\<rceil>, s)"
proof -
  have "int_of_double (ceil ((due (pq_top (scheduledCallbacks s)) - g c) * 1000))
      = Inr \<lceil>(due (pq_top (scheduledCallbacks s)) - g c) * 1000\<rceil>"
    using assms(3,5) by (rule int_of_double_ceil)
  with assms(1-4) show ?thesis
    by (simp add: Worker_body_set_def Let_def)
qed

lemma Worker_body_map_waiting:
  assumes "\<not> pq_empty (scheduledCallbacks s)" and "clock s = Some c"
    and "0 < due (pq_top (scheduledCallbacks s)) - g c"
    and "isCallbackCanceled s (token (pq_top (scheduledCallbacks s))) = Some False"
    and "\<lceil>(due (pq_top (scheduledCallbacks s)) - g c) * 1000\<rceil> \<le> INT_MAX"
  shows "Worker_body_map g s = Inr (Waiting \<lceil>(due (pq_top (scheduledCallbacks s)) - g c) * 1000\<rceil>, s)"
proof -
  have "int_of_double (ceil ((due (pq_top (scheduledCallbacks s)) - g c) * 1000))
      = Inr \<lceil>(due (pq_top (scheduledCallbacks s)) - g c) * 1000\<rceil>"
    using assms(3,5) by (rule int_of_double_ceil)
  with assms(1-4) show ?thesis
    by (simp add: Worker_body_map_def Let_def index_map_def)
qed

lemma Worker_body_map_draining:
  assumes "\<not> pq_empty (scheduledCallbacks s)" and "clock s = Some c"
    and "isCallbackCanceled s (token (pq_top (scheduledCallbacks s))) = Some True"
  shows "Worker_body_map g s =
     Inr (Draining, s\<lparr>isCallbackCanceled := erase (isCallbackCanceled s) (token (pq_top (scheduledCallbacks s))),
                      scheduledCallbacks := pq_pop (scheduledCallbacks s)\<rparr>)"
  using assms by (simp add: Worker_body_map_def Let_def index_map_def)

lemma Worker_body_map_draining_forgets:
  assumes "\<not> pq_empty (scheduledCallbacks s)" and "clock s = Some c"
    and "isCallbackCanceled s (token (pq_top (scheduledCallbacks s))) = Some True"
    and "distinct (map token (scheduledCallbacks s))"
    and "Worker_body_map g s = Inr (tr, s')"
  shows "tr = Draining \<and> token (pq_top (scheduledCallbacks s)) \<notin> dom (isCallbackCanceled s')
       \<and> token (pq_top (scheduledCallbacks s)) \<notin> token ` set (scheduledCallbacks s')"
proof -
  from assms(5) Worker_body_map_draining [OF assms(1-3), of g]
  have tr: "tr = Draining"
    and s': "s' = s\<lparr>isCallbackCanceled := erase (isCallbackCanceled s) (token (pq_top (scheduledCallbacks s))),
                      scheduledCallbacks := pq_pop (scheduledCallbacks s)\<rparr>"
    by simp_all
  from assms(1) have ne: "scheduledCallbacks s \<noteq> []" by (simp add: pq_empty_def)
  show ?thesis using tr tokens_pq_pop [OF assms(4) ne]
    by (simp add: s' erase_def)
qed

subsection \<open>The branches of the worker\<close>

lemma Worker_body_set_cases:
  assumes "Worker_body_set g s = Inr (tr, s')" and "clock s = Some c"
    and "\<not> pq_empty (scheduledCallbacks s)"
  shows "(token (pq_top (scheduledCallbacks s)) \<in> canceledCallbacks s \<and> tr = Draining
            \<and> s' = s\<lparr>scheduledCallbacks := pq_pop (scheduledCallbacks s)\<rparr>)
       \<or> (token (pq_top (scheduledCallbacks s)) \<notin> canceledCallbacks s
            \<and> g c < due (pq_top (scheduledCallbacks s)) \<and> (\<exists>ms. tr = Waiting ms) \<and> s' = s)
       \<or> (token (pq_top (scheduledCallbacks s)) \<notin> canceledCallbacks s
            \<and> due (pq_top (scheduledCallbacks s)) \<le> g c
            \<and> tr = Firing (pq_top (scheduledCallbacks s)) [Invoke (callback (pq_top (scheduledCallbacks s)))]
            \<and> s' = s\<lparr>scheduledCallbacks := pq_pop (scheduledCallbacks s)\<rparr>)"
  using assms
  by (auto simp: Worker_body_set_def Let_def split: if_splits sum.splits)

lemma Worker_body_map_cases:
  assumes "Worker_body_map g s = Inr (tr, s')" and "clock s = Some c"
    and "\<not> pq_empty (scheduledCallbacks s)"
  shows "(isCallbackCanceled s (token (pq_top (scheduledCallbacks s))) = Some True \<and> tr = Draining
            \<and> s' = s\<lparr>isCallbackCanceled := erase (isCallbackCanceled s) (token (pq_top (scheduledCallbacks s))),
                     scheduledCallbacks := pq_pop (scheduledCallbacks s)\<rparr>)
       \<or> (isCallbackCanceled s (token (pq_top (scheduledCallbacks s))) \<noteq> Some True
            \<and> g c < due (pq_top (scheduledCallbacks s)) \<and> (\<exists>ms. tr = Waiting ms)
            \<and> s' = s\<lparr>isCallbackCanceled := snd (index_map (isCallbackCanceled s) (token (pq_top (scheduledCallbacks s))))\<rparr>)
       \<or> (isCallbackCanceled s (token (pq_top (scheduledCallbacks s))) \<noteq> Some True
            \<and> due (pq_top (scheduledCallbacks s)) \<le> g c
            \<and> tr = Firing (pq_top (scheduledCallbacks s))
                   [Unlock, Invoke (callback (pq_top (scheduledCallbacks s))), Lock]
            \<and> s' = s\<lparr>isCallbackCanceled := erase (isCallbackCanceled s) (token (pq_top (scheduledCallbacks s))),
                     scheduledCallbacks := pq_pop (scheduledCallbacks s)\<rparr>)"
  using assms
  by (auto simp: Worker_body_map_def Let_def index_map_def erase_def
      split: if_splits sum.splits option.splits)

lemma Worker_body_set_firing_due:
  assumes "Worker_body_set g s = Inr (Firing e tr, s')" and "clock s = Some c"
  shows "e = pq_top (scheduledCallbacks s) \<and> due e - g c \<le> 0"
  using assms
  by (auto simp: Worker_body_set_def Let_def split: if_splits sum.splits)

lemma Worker_body_map_firing_due:
  assumes "Worker_body_map g s = Inr (Firing e tr, s')" and "clock s = Some c"
  shows "e = pq_top (scheduledCallbacks s) \<and> due e - g c \<le> 0"
  using assms
  by (auto simp: Worker_body_map_def Let_def index_map_def split: if_splits sum.splits option.splits)

lemma Worker_body_set_future:
  assumes "\<not> pq_empty (scheduledCallbacks s)" and "clock s = Some c"
    and "0 < due (pq_top (scheduledCallbacks s)) - g c"
  shows "Worker_body_set g s =
     (if token (pq_top (scheduledCallbacks s)) \<in> canceledCallbacks s
      then Inr (Draining, s\<lparr>scheduledCallbacks := pq_pop (scheduledCallbacks s)\<rparr>)
      else if \<lceil>(due (pq_top (scheduledCallbacks s)) - g c) * 1000\<rceil> \<le> INT_MAX
      then Inr (Waiting \<lceil>(due (pq_top (scheduledCallbacks s)) - g c) * 1000\<rceil>, s)
      else Inl Timeout_not_int)"
proof (cases "token (pq_top (scheduledCallbacks s)) \<in> canceledCallbacks s")
  case True
  with assms(1,2) show ?thesis by (simp add: Worker_body_set_def Let_def)
next
  case False
  show ?thesis
  proof (cases "\<lceil>(due (pq_top (scheduledCallbacks s)) - g c) * 1000\<rceil> \<le> INT_MAX")
    case True
    from Worker_body_set_waiting [of s c g, OF assms(1,2,3) False True] False True
    show ?thesis by simp
  next
    case over: False
    then have "int_of_double (ceil ((due (pq_top (scheduledCallbacks s)) - g c) * 1000))
        = Inl Timeout_not_int"
      by (intro int_of_double_ceil_overflow) simp
    with assms False have "Worker_body_set g s = Inl Timeout_not_int"
      by (simp add: Worker_body_set_def Let_def)
    with False over show ?thesis by simp
  qed
qed

lemma Worker_body_map_future:
  assumes "\<not> pq_empty (scheduledCallbacks s)" and "clock s = Some c"
    and "0 < due (pq_top (scheduledCallbacks s)) - g c"
  shows "Worker_body_map g s =
     (if isCallbackCanceled s (token (pq_top (scheduledCallbacks s))) = Some True
      then Inr (Draining,
             s\<lparr>isCallbackCanceled := erase (isCallbackCanceled s) (token (pq_top (scheduledCallbacks s))),
               scheduledCallbacks := pq_pop (scheduledCallbacks s)\<rparr>)
      else if \<lceil>(due (pq_top (scheduledCallbacks s)) - g c) * 1000\<rceil> \<le> INT_MAX
      then Inr (Waiting \<lceil>(due (pq_top (scheduledCallbacks s)) - g c) * 1000\<rceil>,
             s\<lparr>isCallbackCanceled :=
                 snd (index_map (isCallbackCanceled s) (token (pq_top (scheduledCallbacks s))))\<rparr>)
      else Inl Timeout_not_int)"
proof (cases "isCallbackCanceled s (token (pq_top (scheduledCallbacks s))) = Some True")
  case True
  from Worker_body_map_draining [OF assms(1,2) True] True show ?thesis by simp
next
  case False
  then have nc: "\<not> fst (index_map (isCallbackCanceled s) (token (pq_top (scheduledCallbacks s))))"
    by (auto simp: index_map_def split: option.splits)
  show ?thesis
  proof (cases "\<lceil>(due (pq_top (scheduledCallbacks s)) - g c) * 1000\<rceil> \<le> INT_MAX")
    case True
    have "int_of_double (ceil ((due (pq_top (scheduledCallbacks s)) - g c) * 1000))
        = Inr \<lceil>(due (pq_top (scheduledCallbacks s)) - g c) * 1000\<rceil>"
      using assms(3) True by (rule int_of_double_ceil)
    with assms nc have "Worker_body_map g s
        = Inr (Waiting \<lceil>(due (pq_top (scheduledCallbacks s)) - g c) * 1000\<rceil>,
             s\<lparr>isCallbackCanceled :=
                 snd (index_map (isCallbackCanceled s) (token (pq_top (scheduledCallbacks s))))\<rparr>)"
      by (simp add: Worker_body_map_def Let_def split_beta)
    with False True show ?thesis by simp
  next
    case over: False
    then have "int_of_double (ceil ((due (pq_top (scheduledCallbacks s)) - g c) * 1000))
        = Inl Timeout_not_int"
      by (intro int_of_double_ceil_overflow) simp
    with assms nc have "Worker_body_map g s = Inl Timeout_not_int"
      by (simp add: Worker_body_map_def Let_def split_beta)
    with False over show ?thesis by simp
  qed
qed

lemma Worker_body_map_firing_unlocked:
  assumes "Worker_body_map g s = Inr (Firing e tr, s')"
  shows "tr = [Unlock, Invoke (callback e), Lock] \<and> invoked tr = [callback e]
       \<and> invoked_locked True tr = [] \<and> owns_lock True tr"
  using assms
  by (auto simp: Worker_body_map_def Let_def split: if_splits option.splits sum.splits prod.splits)

subsection \<open>Cancel\<close>

lemma Cancel_set_keeps:
  "scheduledCallbacks (Cancel_set s t) = scheduledCallbacks s \<and>
   nextToken (Cancel_set s t) = nextToken s \<and>
   clock (Cancel_set s t) = clock s \<and>
   stopWorker (Cancel_set s t) = stopWorker s \<and>
   canceledCallbacks (Cancel_set s t) = insert t (canceledCallbacks s)"
  by (simp add: Cancel_set_def)

lemma Cancel_set_idem: "Cancel_set (Cancel_set s t) t = Cancel_set s t"
  by (simp add: Cancel_set_def)

lemma Cancel_set_known: "t \<in> canceledCallbacks s \<Longrightarrow> Cancel_set s t = s"
  by (simp add: Cancel_set_def insert_absorb)

lemma Cancel_set_Worker_other:
  assumes "pq_empty (scheduledCallbacks s) \<or> token (pq_top (scheduledCallbacks s)) \<noteq> t"
  shows "Worker_step_set g (Cancel_set s t)
       = map_sum id (apsnd (\<lambda>s'. Cancel_set s' t)) (Worker_step_set g s)"
  using assms
  by (auto simp: Worker_step_set_def Worker_body_set_def Cancel_set_def Let_def
      split: option.splits sum.splits)

lemma Cancel_map_keeps:
  "scheduledCallbacks (Cancel_map s t) = scheduledCallbacks s \<and>
   nextToken (Cancel_map s t) = nextToken s \<and>
   clock (Cancel_map s t) = clock s \<and>
   stopWorker (Cancel_map s t) = stopWorker s \<and>
   dom (isCallbackCanceled (Cancel_map s t)) = dom (isCallbackCanceled s)"
  by (auto simp: Cancel_map_def split: option.splits)

lemma Cancel_map_idem: "Cancel_map (Cancel_map s t) t = Cancel_map s t"
  by (simp add: Cancel_map_def split: option.splits)

lemma Cancel_map_noop: "isCallbackCanceled s t \<noteq> Some False \<Longrightarrow> Cancel_map s t = s"
proof (cases "isCallbackCanceled s t")
  case None
  then show ?thesis by (simp add: Cancel_map_def)
next
  case (Some b)
  assume "isCallbackCanceled s t \<noteq> Some False"
  with Some have "isCallbackCanceled s t = Some True" by simp
  then have "(isCallbackCanceled s)(t \<mapsto> True) = isCallbackCanceled s"
    by (simp add: map_upd_triv)
  then show ?thesis using Some by (simp add: Cancel_map_def)
qed

lemma Cancel_map_Worker_other:
  assumes "pq_empty (scheduledCallbacks s) \<or> token (pq_top (scheduledCallbacks s)) \<noteq> t"
  shows "Worker_step_map g (Cancel_map s t)
       = map_sum id (apsnd (\<lambda>s'. Cancel_map s' t)) (Worker_step_map g s)"
  using assms
  by (auto simp: Worker_step_map_def Worker_body_map_def Cancel_map_def Let_def index_map_def
      erase_def fun_upd_twist split: option.splits sum.splits)

lemma C4_map_cancel_before_schedule:
  "run_map [Do_SetClock (Some (0::nat)), Do_Cancel 1, Do_Schedule ''A'' 0, Do_Worker (MockClock 0)]
     Impl_map_new
   = Inr ([Returned, Returned, Token 1,
           Moved (Firing \<lparr>token = 1, due = 0, callback = ''A''\<rparr> [Unlock, Invoke ''A'', Lock])],
     \<lparr>clock = Some 0, scheduledCallbacks = [], stopWorker = False, nextToken = 2,
      isCallbackCanceled = Map.empty\<rparr>)"
  by (simp add: Impl_map_new_def SetClock_def Cancel_map_def Schedule_map_def Worker_step_map_def
      Worker_body_map_def index_map_def erase_def pq_defs int32_def MockClock_def)

subsection \<open>The clock pointer\<close>

lemma Worker_body_set_null:
  "\<not> pq_empty (scheduledCallbacks s) \<Longrightarrow> (Worker_body_set g s = Inl Null_clock) = (clock s = None)"
  by (auto simp: Worker_body_set_def Let_def int_of_double_def split: option.splits sum.splits if_splits)

lemma Worker_body_map_null:
  "\<not> pq_empty (scheduledCallbacks s) \<Longrightarrow> (Worker_body_map g s = Inl Null_clock) = (clock s = None)"
  by (auto simp: Worker_body_map_def Let_def int_of_double_def split: option.splits sum.splits if_splits prod.splits)

lemma Schedule_set_clock:
  "clock s \<noteq> None \<Longrightarrow> clock (snd (Schedule_set s cb d)) = clock s
     \<and> \<not> pq_empty (scheduledCallbacks (snd (Schedule_set s cb d)))"
  by (auto simp: Schedule_set_def Let_def pq_defs)

lemma Schedule_map_clock:
  "clock s \<noteq> None \<Longrightarrow> clock (snd (Schedule_map s cb d)) = clock s
     \<and> \<not> pq_empty (scheduledCallbacks (snd (Schedule_map s cb d)))"
  by (auto simp: Schedule_map_def Let_def pq_defs)

lemma exec_set_clock_safe:
  assumes "clock_safe s" and "c \<noteq> Do_SetClock None"
  shows "exec_set c s \<noteq> Inl Null_clock \<and> (\<forall>r s'. exec_set c s = Inr (r, s') \<longrightarrow> clock_safe s')"
proof (cases c)
  case (Do_SetClock x)
  with assms(2) show ?thesis by (auto simp: clock_safe_def SetClock_def)
next
  case (Do_Schedule cb d)
  with assms(1) show ?thesis
    by (auto simp: clock_safe_def Schedule_set_def Let_def split: if_splits)
next
  case (Do_Cancel t)
  with assms(1) show ?thesis by (simp add: clock_safe_def Cancel_set_def)
next
  case Do_WakeUp
  with assms(1) show ?thesis by (simp add: WakeUp_def)
next
  case (Do_Worker g)
  with assms(1) show ?thesis
    by (auto simp: clock_safe_def Worker_step_set_def Worker_body_set_def Let_def int_of_double_def
        split: if_splits option.splits sum.splits)
qed

lemma exec_map_clock_safe:
  assumes "clock_safe s" and "c \<noteq> Do_SetClock None"
  shows "exec_map c s \<noteq> Inl Null_clock \<and> (\<forall>r s'. exec_map c s = Inr (r, s') \<longrightarrow> clock_safe s')"
proof (cases c)
  case (Do_SetClock x)
  with assms(2) show ?thesis by (auto simp: clock_safe_def SetClock_def)
next
  case (Do_Schedule cb d)
  with assms(1) show ?thesis
    by (auto simp: clock_safe_def Schedule_map_def Let_def split: if_splits)
next
  case (Do_Cancel t)
  with assms(1) show ?thesis by (simp add: clock_safe_def Cancel_map_def split: option.splits)
next
  case Do_WakeUp
  with assms(1) show ?thesis by (simp add: WakeUp_def)
next
  case (Do_Worker g)
  with assms(1) show ?thesis
    by (auto simp: clock_safe_def Worker_step_map_def Worker_body_map_def Let_def int_of_double_def
        split: if_splits option.splits sum.splits prod.splits)
qed

lemma run_set_clock_safe:
  "clock_safe s \<Longrightarrow> Do_SetClock None \<notin> set cs \<Longrightarrow> run_set cs s \<noteq> Inl Null_clock"
proof (induction cs arbitrary: s)
  case Nil
  then show ?case by simp
next
  case (Cons c cs)
  from Cons.prems have c: "c \<noteq> Do_SetClock None" and cs: "Do_SetClock None \<notin> set cs" by auto
  from exec_set_clock_safe [OF Cons.prems(1) c]
  have e: "exec_set c s \<noteq> Inl Null_clock"
    and k: "\<And>r s'. exec_set c s = Inr (r, s') \<Longrightarrow> clock_safe s'" by auto
  show ?case
  proof (cases "exec_set c s")
    case (Inl f)
    with e show ?thesis by simp
  next
    case (Inr p)
    obtain r s' where p: "p = (r, s')" by (cases p)
    from Cons.IH [OF k cs] Inr p have "run_set cs s' \<noteq> Inl Null_clock" by simp
    with Inr p show ?thesis by (auto split: sum.splits)
  qed
qed

lemma run_map_clock_safe:
  "clock_safe s \<Longrightarrow> Do_SetClock None \<notin> set cs \<Longrightarrow> run_map cs s \<noteq> Inl Null_clock"
proof (induction cs arbitrary: s)
  case Nil
  then show ?case by simp
next
  case (Cons c cs)
  from Cons.prems have c: "c \<noteq> Do_SetClock None" and cs: "Do_SetClock None \<notin> set cs" by auto
  from exec_map_clock_safe [OF Cons.prems(1) c]
  have e: "exec_map c s \<noteq> Inl Null_clock"
    and k: "\<And>r s'. exec_map c s = Inr (r, s') \<Longrightarrow> clock_safe s'" by auto
  show ?case
  proof (cases "exec_map c s")
    case (Inl f)
    with e show ?thesis by simp
  next
    case (Inr p)
    obtain r s' where p: "p = (r, s')" by (cases p)
    from Cons.IH [OF k cs] Inr p have "run_map cs s' \<noteq> Inl Null_clock" by simp
    with Inr p show ?thesis by (auto split: sum.splits)
  qed
qed

subsection \<open>The token counter\<close>

lemma int32_id: "INT_MIN \<le> x \<Longrightarrow> x \<le> INT_MAX \<Longrightarrow> int32 x = x"
  by (simp add: int32_def INT_MIN_def INT_MAX_def)

lemma int32_add: "int32 (int32 x + y) = int32 (x + y)"
proof -
  have "(int32 x + y + 2147483648) mod 4294967296
      = ((x + 2147483648) mod 4294967296 + y) mod 4294967296"
    by (simp add: int32_def)
  also have "\<dots> = (x + 2147483648 + y) mod 4294967296"
    by (simp add: mod_add_left_eq)
  also have "x + 2147483648 + y = x + y + 2147483648"
    by arith
  finally have "(int32 x + y + 2147483648) mod 4294967296 = (x + y + 2147483648) mod 4294967296" .
  then show ?thesis unfolding int32_def [of "int32 x + y"] int32_def [of "x + y"] by simp
qed

lemma int32_idem: "int32 (int32 x) = int32 x"
  using int32_add [of x 0] by simp

subsection \<open>Histories\<close>

lemma tokens_append: "tokens (rs @ rs') = tokens rs @ tokens rs'"
  by (induction rs rule: tokens.induct) simp_all

lemma fired_append: "fired (rs @ rs') = fired rs @ fired rs'"
  by (induction rs rule: fired.induct) simp_all

lemma run_set_append:
  "run_set (xs @ ys) s =
     (case run_set xs s of
        Inl f \<Rightarrow> Inl f
      | Inr (rs, s') \<Rightarrow>
          (case run_set ys s' of Inl f \<Rightarrow> Inl f | Inr (rs', s'') \<Rightarrow> Inr (rs @ rs', s'')))"
  by (induction xs arbitrary: s) (auto split: sum.splits)

lemma run_map_append:
  "run_map (xs @ ys) s =
     (case run_map xs s of
        Inl f \<Rightarrow> Inl f
      | Inr (rs, s') \<Rightarrow>
          (case run_map ys s' of Inl f \<Rightarrow> Inl f | Inr (rs', s'') \<Rightarrow> Inr (rs @ rs', s'')))"
  by (induction xs arbitrary: s) (auto split: sum.splits)

lemma run_set_snoc:
  assumes "run_set (cs @ [c]) s = Inr (rs, s')"
  obtains rs0 s0 r where "run_set cs s = Inr (rs0, s0)" and "exec_set c s0 = Inr (r, s')"
    and "rs = rs0 @ [r]"
  using assms by (auto simp: run_set_append split: sum.splits)

lemma run_map_snoc:
  assumes "run_map (cs @ [c]) s = Inr (rs, s')"
  obtains rs0 s0 r where "run_map cs s = Inr (rs0, s0)" and "exec_map c s0 = Inr (r, s')"
    and "rs = rs0 @ [r]"
  using assms by (auto simp: run_map_append split: sum.splits)

lemma schedule_calls_snoc:
  "schedule_calls (cs @ [c]) = schedule_calls cs + (if is_Schedule c then 1 else 0)"
  by (simp add: schedule_calls_def)

lemma upto_snoc: "0 \<le> k \<Longrightarrow> [1..k] @ [k + 1] = [1..k + 1]"
  using upto_rec2 [of 1 "k + 1"] by simp

lemma exec_set_token_step:
  assumes "exec_set c s0 = Inr (r, s)" and "nextToken s0 = 1 + int k" and "int k < INT_MAX"
  shows "(tokens [r] = [] \<and> nextToken s = nextToken s0)
       \<or> (is_Schedule c \<and> tokens [r] = [1 + int k] \<and> nextToken s = int32 (1 + int (Suc k)))"
proof (cases c)
  case (Do_Schedule cb d)
  from assms(2,3) have "nextToken s0 \<noteq> 0" by simp
  with assms Do_Schedule show ?thesis
    by (auto simp: Schedule_set_def Let_def add.commute split: if_splits)
next
  case (Do_Worker g)
  with assms(1) show ?thesis
    by (auto simp: Worker_step_set_def Worker_body_set_def Let_def
        split: if_splits option.splits sum.splits)
qed (use assms(1) in \<open>auto simp: SetClock_def Cancel_set_def WakeUp_def\<close>)

lemma run_set_tokens:
  assumes "run_set cs Impl_set_new = Inr (rs, s)" and "int (schedule_calls cs) \<le> INT_MAX"
  shows "tokens rs = [1..int (length (tokens rs))]
       \<and> nextToken s = int32 (1 + int (length (tokens rs)))
       \<and> length (tokens rs) \<le> schedule_calls cs"
  using assms
proof (induction cs arbitrary: rs s rule: rev_induct)
  case Nil
  then show ?case by (auto simp: Impl_set_new_def int32_def)
next
  case (snoc c cs)
  from snoc.prems(1) obtain rs0 s0 r where run: "run_set cs Impl_set_new = Inr (rs0, s0)"
    and ex: "exec_set c s0 = Inr (r, s)" and rs: "rs = rs0 @ [r]"
    by (rule run_set_snoc)
  let ?k = "length (tokens rs0)"
  from snoc.prems(2) have le: "int (schedule_calls cs) \<le> INT_MAX"
    by (simp add: schedule_calls_snoc split: if_splits)
  from snoc.IH [OF run le]
  have t0: "tokens rs0 = [1..int ?k]" and n0: "nextToken s0 = int32 (1 + int ?k)"
    and k0: "?k \<le> schedule_calls cs" by simp_all
  show ?case
  proof (cases "is_Schedule c")
    case True
    with snoc.prems(2) k0 have lt: "int ?k < INT_MAX"
      by (simp add: schedule_calls_snoc)
    then have n0': "nextToken s0 = 1 + int ?k"
      using n0 by (simp add: int32_id INT_MIN_def)
    from exec_set_token_step [OF ex n0' lt]
    show ?thesis
    proof
      assume "tokens [r] = [] \<and> nextToken s = nextToken s0"
      with t0 n0 k0 rs show ?thesis
        by (simp add: tokens_append schedule_calls_snoc)
    next
      assume a: "is_Schedule c \<and> tokens [r] = [1 + int ?k] \<and> nextToken s = int32 (1 + int (Suc ?k))"
      have "tokens rs = [1..int ?k] @ [int ?k + 1]"
        using a t0 rs by (simp add: tokens_append add.commute)
      also have "\<dots> = [1..int ?k + 1]" by (rule upto_snoc) simp
      finally have "tokens rs = [1..int ?k + 1]" .
      moreover have "length (tokens rs) = Suc ?k"
        using a rs by (simp add: tokens_append)
      ultimately show ?thesis using a k0 True
        by (simp add: schedule_calls_snoc add.commute)
    qed
  next
    case False
    with ex have "tokens [r] = [] \<and> nextToken s = nextToken s0"
      by (cases c)
        (auto simp: SetClock_def Cancel_set_def WakeUp_def Worker_step_set_def Worker_body_set_def
          Let_def split: if_splits option.splits sum.splits)
    with t0 n0 k0 rs show ?thesis
      by (simp add: tokens_append schedule_calls_snoc)
  qed
qed

subsection \<open>The order of firing\<close>

lemma Worker_step_set_fires_least:
  assumes "Worker_step_set g s = Inr (Firing e tr, s')"
  shows "e \<in> set (scheduledCallbacks s) \<and> (\<forall>x\<in>set (scheduledCallbacks s). due e \<le> due x)"
proof -
  from assms have ne: "scheduledCallbacks s \<noteq> []" and e: "e = pq_top (scheduledCallbacks s)"
    by (auto simp: Worker_step_set_def Worker_body_set_def Let_def pq_empty_def
        split: if_splits option.splits sum.splits)
  from ne e show ?thesis by (simp add: pq_top_in pq_top_least)
qed

lemma Worker_step_set_pending:
  assumes "Worker_step_set g s = Inr (tr, s')"
  shows "set (scheduledCallbacks s') \<subseteq> set (scheduledCallbacks s)"
  using assms set_pq_pop [of "scheduledCallbacks s"]
  by (auto simp: Worker_step_set_def Worker_body_set_def Let_def
      split: if_splits option.splits sum.splits)

lemma exec_set_pending:
  assumes "exec_set c s = Inr (r, s')" and "\<not> is_Schedule c"
  shows "set (scheduledCallbacks s') \<subseteq> set (scheduledCallbacks s)"
proof (cases c)
  case (Do_Worker g)
  with assms(1) obtain tr where "Worker_step_set g s = Inr (tr, s')"
    by (auto split: sum.splits)
  then show ?thesis by (rule Worker_step_set_pending)
qed (use assms in \<open>auto simp: SetClock_def Cancel_set_def WakeUp_def\<close>)

lemma exec_set_fired:
  assumes "exec_set c s = Inr (r, s')"
  shows "fired [r] = [] \<or> (\<exists>e. fired [r] = [e] \<and> e \<in> set (scheduledCallbacks s)
           \<and> (\<forall>x\<in>set (scheduledCallbacks s). due e \<le> due x))"
proof (cases c)
  case (Do_Worker g)
  with assms obtain tr where w: "Worker_step_set g s = Inr (tr, s')" and r: "r = Moved tr"
    by (auto split: sum.splits)
  show ?thesis
  proof (cases tr)
    case (Firing e st)
    with w have "Worker_step_set g s = Inr (Firing e st, s')" by simp
    from Worker_step_set_fires_least [OF this] r Firing show ?thesis by simp
  qed (use r in simp_all)
qed (use assms in \<open>auto split: prod.splits\<close>)

lemma run_set_fired_sorted:
  assumes "run_set cs s = Inr (rs, s')" and "schedule_calls cs = 0"
  shows "set (fired rs) \<subseteq> set (scheduledCallbacks s) \<and> sorted (map due (fired rs))"
  using assms
proof (induction cs arbitrary: s rs)
  case Nil
  then show ?case by simp
next
  case (Cons c cs)
  from Cons.prems(1) obtain r s1 rs1 where ex: "exec_set c s = Inr (r, s1)"
    and run: "run_set cs s1 = Inr (rs1, s')" and rs: "rs = r # rs1"
    by (auto split: sum.splits)
  from Cons.prems(2) have nc: "\<not> is_Schedule c" and ncs: "schedule_calls cs = 0"
    by (auto simp: schedule_calls_def split: if_splits)
  from Cons.IH [OF run ncs]
  have sub1: "set (fired rs1) \<subseteq> set (scheduledCallbacks s1)"
    and sort1: "sorted (map due (fired rs1))" by simp_all
  from exec_set_pending [OF ex nc] sub1
  have sub: "set (fired rs1) \<subseteq> set (scheduledCallbacks s)" by blast
  have f: "fired rs = fired [r] @ fired rs1"
    using fired_append [of "[r]" rs1] rs by simp
  from exec_set_fired [OF ex] show ?case
  proof
    assume "fired [r] = []"
    with f sub sort1 show ?thesis by simp
  next
    assume "\<exists>e. fired [r] = [e] \<and> e \<in> set (scheduledCallbacks s)
           \<and> (\<forall>x\<in>set (scheduledCallbacks s). due e \<le> due x)"
    then obtain e where e: "fired [r] = [e]" and ein: "e \<in> set (scheduledCallbacks s)"
      and least: "\<forall>x\<in>set (scheduledCallbacks s). due e \<le> due x" by blast
    from least sub have "\<forall>x\<in>set (fired rs1). due e \<le> due x" by blast
    with f e ein sub sort1 show ?thesis by simp
  qed
qed

subsection \<open>A scheduler that runs until its counter wraps\<close>

lemma int32_not_1: "j < 4294967295 \<Longrightarrow> int32 (2 + int j) \<noteq> 1"
proof
  assume j: "j < 4294967295" and e: "int32 (2 + int j) = 1"
  define y where "y = int j + 2147483650"
  have y0: "2147483650 \<le> y" and y1: "y < 6442450945"
    using j by (simp_all add: y_def)
  have "2 + int j + 2147483648 = y" by (simp add: y_def)
  with e have m: "y mod 4294967296 = 2147483649"
    unfolding int32_def by simp
  show False
  proof (cases "y < 4294967296")
    case True
    with y0 have "y mod 4294967296 = y" by (intro mod_pos_pos_trivial) linarith+
    with m y0 show False by linarith
  next
    case False
    have "(y - 4294967296) mod 4294967296 = y - 4294967296"
      using False y1 by (intro mod_pos_pos_trivial) linarith+
    moreover have "(y - 4294967296) mod 4294967296 = y mod 4294967296"
      by (rule minus_mod_self2)
    ultimately have "y - 4294967296 = 2147483649" using m by linarith
    with y1 show False by linarith
  qed
qed

lemma pending_empty_upd:
  "scheduledCallbacks s = [] \<Longrightarrow> s\<lparr>nextToken := n, scheduledCallbacks := []\<rparr> = s\<lparr>nextToken := n\<rparr>"
  by (cases s) simp

lemma Schedule_fire_set:
  assumes "clock s = Some c" and "\<not> stopWorker s" and "scheduledCallbacks s = []"
    and "canceledCallbacks s = {}"
  shows "run_set (Do_Schedule cb 0 # Do_Worker (MockClock 0) # cs) s
     = (case run_set cs (s\<lparr>nextToken := int32 (nextToken s + 1)\<rparr>) of
          Inl f \<Rightarrow> Inl f
        | Inr (rs, s') \<Rightarrow>
            Inr (Token (nextToken s)
                 # Moved (Firing \<lparr>token = nextToken s, due = 0, callback = cb\<rparr> [Invoke cb])
                 # rs, s'))"
  using assms
  by (simp add: Schedule_set_def Worker_step_set_def Worker_body_set_def Let_def pq_defs MockClock_def
      pending_empty_upd split: sum.splits)

lemma Schedule_fire_set_times:
  assumes "clock s = Some c" and "\<not> stopWorker s" and "scheduledCallbacks s = []"
    and "canceledCallbacks s = {}" and "int32 (nextToken s) = nextToken s"
  shows "\<exists>rs. run_set (concat (replicate n [Do_Schedule cb 0, Do_Worker (MockClock 0)])) s
     = Inr (rs, s\<lparr>nextToken := int32 (nextToken s + int n)\<rparr>)"
  using assms
proof (induction n arbitrary: s)
  case 0
  then show ?case by simp
next
  case (Suc n)
  let ?s1 = "s\<lparr>nextToken := int32 (nextToken s + 1)\<rparr>"
  let ?cs = "concat (replicate n [Do_Schedule cb 0, Do_Worker (MockClock 0)])"
  from Suc.prems have h: "clock ?s1 = Some c" "\<not> stopWorker ?s1" "scheduledCallbacks ?s1 = []"
    "canceledCallbacks ?s1 = {}" "int32 (nextToken ?s1) = nextToken ?s1"
    by (simp_all add: int32_idem)
  from Suc.IH [OF h] obtain rs where
    r: "run_set ?cs ?s1 = Inr (rs, ?s1\<lparr>nextToken := int32 (nextToken ?s1 + int n)\<rparr>)" by blast
  have e: "?s1\<lparr>nextToken := int32 (nextToken ?s1 + int n)\<rparr>
      = s\<lparr>nextToken := int32 (nextToken s + int (Suc n))\<rparr>"
    by (simp add: int32_add add.assoc)
  have c: "concat (replicate (Suc n) [Do_Schedule cb 0, Do_Worker (MockClock 0)])
      = Do_Schedule cb 0 # Do_Worker (MockClock 0) # ?cs" by simp
  have "run_set (concat (replicate (Suc n) [Do_Schedule cb 0, Do_Worker (MockClock 0)])) s
      = Inr (Token (nextToken s)
             # Moved (Firing \<lparr>token = nextToken s, due = 0, callback = cb\<rparr> [Invoke cb]) # rs,
            s\<lparr>nextToken := int32 (nextToken s + int (Suc n))\<rparr>)"
    unfolding c Schedule_fire_set [OF Suc.prems(1-4)] r e by simp
  then show ?case by (rule exI)
qed

lemma Schedule_fire_map:
  assumes "clock s = Some c" and "\<not> stopWorker s"
    and "scheduledCallbacks s = [\<lparr>token = 1, due = 100, callback = old\<rparr>]"
    and "isCallbackCanceled s = [1 \<mapsto> False]" and "nextToken s \<noteq> 1"
  shows "run_map (Do_Schedule cb 0 # Do_Worker (MockClock 0) # cs) s
     = (case run_map cs (s\<lparr>nextToken := int32 (nextToken s + 1)\<rparr>) of
          Inl f \<Rightarrow> Inl f
        | Inr (rs, s') \<Rightarrow>
            Inr (Token (nextToken s)
                 # Moved (Firing \<lparr>token = nextToken s, due = 0, callback = cb\<rparr>
                           [Unlock, Invoke cb, Lock])
                 # rs, s'))"
proof -
  let ?old = "\<lparr>token = 1, due = 100, callback = old\<rparr>"
  let ?x = "\<lparr>token = nextToken s, due = 0, callback = cb\<rparr>"
  let ?s1 = "s\<lparr>nextToken := int32 (nextToken s + 1),
      isCallbackCanceled := (isCallbackCanceled s)(nextToken s \<mapsto> False),
      scheduledCallbacks := [?old, ?x]\<rparr>"
  have sch: "Schedule_map s cb 0 = (nextToken s, ?s1)"
    using assms(1,3) by (simp add: Schedule_map_def Let_def pq_push_def)
  have m: "((isCallbackCanceled s)(nextToken s \<mapsto> False))(nextToken s := None) = isCallbackCanceled s"
    using assms(4,5) by (simp add: fun_upd_idem)
  have "Worker_step_map (MockClock 0) ?s1
      = Inr (Firing ?x [Unlock, Invoke cb, Lock], s\<lparr>nextToken := int32 (nextToken s + 1)\<rparr>)"
    using assms(1,2,3) m
    by (simp add: Worker_step_map_def Worker_body_map_def Let_def pq_defs MockClock_def
        index_map_def erase_def)
  with sch show ?thesis by (simp split: sum.splits)
qed

lemma Schedule_fire_map_times:
  assumes "clock s = Some c" and "\<not> stopWorker s"
    and "scheduledCallbacks s = [\<lparr>token = 1, due = 100, callback = old\<rparr>]"
    and "isCallbackCanceled s = [1 \<mapsto> False]"
    and "int32 (nextToken s) = nextToken s"
    and "\<forall>j<n. int32 (nextToken s + int j) \<noteq> 1"
  shows "\<exists>rs. run_map (concat (replicate n [Do_Schedule cb 0, Do_Worker (MockClock 0)])) s
     = Inr (rs, s\<lparr>nextToken := int32 (nextToken s + int n)\<rparr>)"
  using assms
proof (induction n arbitrary: s)
  case 0
  then show ?case by simp
next
  case (Suc n)
  let ?s1 = "s\<lparr>nextToken := int32 (nextToken s + 1)\<rparr>"
  let ?cs = "concat (replicate n [Do_Schedule cb 0, Do_Worker (MockClock 0)])"
  from Suc.prems(6) have "int32 (nextToken s + int 0) \<noteq> 1" by blast
  with Suc.prems(5) have ne: "nextToken s \<noteq> 1" by simp
  have later: "\<forall>j<n. int32 (nextToken ?s1 + int j) \<noteq> 1"
  proof (intro allI impI)
    fix j assume "j < n"
    then have "Suc j < Suc n" by simp
    with Suc.prems(6) have "int32 (nextToken s + int (Suc j)) \<noteq> 1" by blast
    then show "int32 (nextToken ?s1 + int j) \<noteq> 1"
      by (simp add: int32_add add.assoc)
  qed
  have "clock ?s1 = clock s" "stopWorker ?s1 = stopWorker s"
    "scheduledCallbacks ?s1 = scheduledCallbacks s" "isCallbackCanceled ?s1 = isCallbackCanceled s"
    by simp_all
  with Suc.prems(1-4) have h: "clock ?s1 = Some c" "\<not> stopWorker ?s1"
    "scheduledCallbacks ?s1 = [\<lparr>token = 1, due = 100, callback = old\<rparr>]"
    "isCallbackCanceled ?s1 = [1 \<mapsto> False]"
    by (simp_all only: not_False_eq_True)
  have h5: "int32 (nextToken ?s1) = nextToken ?s1" by (simp add: int32_idem)
  from Suc.IH [OF h h5 later] obtain rs where
    r: "run_map ?cs ?s1 = Inr (rs, ?s1\<lparr>nextToken := int32 (nextToken ?s1 + int n)\<rparr>)" by blast
  have e: "?s1\<lparr>nextToken := int32 (nextToken ?s1 + int n)\<rparr>
      = s\<lparr>nextToken := int32 (nextToken s + int (Suc n))\<rparr>"
    by (simp add: int32_add add.assoc)
  have c: "concat (replicate (Suc n) [Do_Schedule cb 0, Do_Worker (MockClock 0)])
      = Do_Schedule cb 0 # Do_Worker (MockClock 0) # ?cs" by simp
  have "run_map (concat (replicate (Suc n) [Do_Schedule cb 0, Do_Worker (MockClock 0)])) s
      = Inr (Token (nextToken s)
             # Moved (Firing \<lparr>token = nextToken s, due = 0, callback = cb\<rparr> [Unlock, Invoke cb, Lock])
             # rs,
            s\<lparr>nextToken := int32 (nextToken s + int (Suc n))\<rparr>)"
    unfolding c Schedule_fire_map [OF Suc.prems(1-4) ne] r e by simp
  then show ?case by (rule exI)
qed

subsection \<open>The keys of the map\<close>

lemma Worker_step_map_inv:
  assumes "Worker_step_map g s = Inr (tr, s')" and "map_inv k s"
  shows "map_inv k s'"
proof (cases "stopWorker s \<or> pq_empty (scheduledCallbacks s)")
  case True
  with assms show ?thesis
    by (auto simp: Worker_step_map_def Worker_body_map_def split: if_splits)
next
  case False
  then have ne: "scheduledCallbacks s \<noteq> []" and ns: "\<not> stopWorker s"
    by (simp_all add: pq_empty_def)
  let ?t = "token (pq_top (scheduledCallbacks s))"
  from assms(2) have km: "dom (isCallbackCanceled s) = token ` set (scheduledCallbacks s)"
    and d: "distinct (map token (scheduledCallbacks s))"
    and b: "token ` set (scheduledCallbacks s) \<subseteq> {1..int k}"
    and n: "nextToken s = int32 (1 + int k)"
    by (simp_all add: map_inv_def keys_match_def)
  from pq_top_in [OF ne] km have "?t \<in> dom (isCallbackCanceled s)" by auto
  then obtain v where v: "isCallbackCanceled s ?t = Some v" by auto
  from assms(1) ns obtain c where c: "clock s = Some c" and bd: "Worker_body_map g s = Inr (tr, s')"
    using False by (auto simp: Worker_step_map_def Worker_body_map_def split: option.splits)
  from False have npe: "\<not> pq_empty (scheduledCallbacks s)" by simp
  from v have same: "s\<lparr>isCallbackCanceled := snd (index_map (isCallbackCanceled s) ?t)\<rparr> = s"
    by (simp add: index_map_def)
  from Worker_body_map_cases [OF bd c npe]
  have "s' = s \<or> s' = s\<lparr>isCallbackCanceled := erase (isCallbackCanceled s) ?t,
                         scheduledCallbacks := pq_pop (scheduledCallbacks s)\<rparr>"
    using same by auto
  then show ?thesis
  proof
    assume "s' = s"
    with assms(2) show ?thesis by simp
  next
    assume s': "s' = s\<lparr>isCallbackCanceled := erase (isCallbackCanceled s) ?t,
                         scheduledCallbacks := pq_pop (scheduledCallbacks s)\<rparr>"
    have "dom (erase (isCallbackCanceled s) ?t) = token ` set (pq_pop (scheduledCallbacks s))"
      using km tokens_pq_pop [OF d ne] by (simp add: erase_def)
    moreover have "distinct (map token (pq_pop (scheduledCallbacks s)))"
      using d by (rule distinct_pq_pop)
    moreover have "token ` set (pq_pop (scheduledCallbacks s)) \<subseteq> {1..int k}"
      using b set_pq_pop [of "scheduledCallbacks s"] by blast
    ultimately show ?thesis using n by (simp add: s' map_inv_def keys_match_def)
  qed
qed

lemma Cancel_map_inv: "map_inv k s \<Longrightarrow> map_inv k (Cancel_map s t)"
  using Cancel_map_keeps [of s t] by (simp add: map_inv_def keys_match_def)

lemma Schedule_map_inv:
  assumes "map_inv k s" and "int k < INT_MAX" and "Schedule_map s cb d = (t, s')"
  shows "(t = 0 \<and> map_inv k s') \<or> (t = 1 + int k \<and> map_inv (Suc k) s')"
proof (cases "clock s = None")
  case True
  with assms show ?thesis by (simp add: Schedule_map_def)
next
  case False
  from assms(1) have km: "dom (isCallbackCanceled s) = token ` set (scheduledCallbacks s)"
    and d: "distinct (map token (scheduledCallbacks s))"
    and b: "token ` set (scheduledCallbacks s) \<subseteq> {1..int k}"
    and n: "nextToken s = int32 (1 + int k)"
    by (simp_all add: map_inv_def keys_match_def)
  from n assms(2) have n': "nextToken s = 1 + int k" by (simp add: int32_id INT_MIN_def)
  from b have fresh: "1 + int k \<notin> token ` set (scheduledCallbacks s)" by auto
  from assms(3) False have t: "t = nextToken s"
    and nt: "nextToken s' = int32 (nextToken s + 1)"
    and m: "isCallbackCanceled s' = (isCallbackCanceled s)(nextToken s \<mapsto> False)"
    and q: "scheduledCallbacks s' = scheduledCallbacks s @ [\<lparr>token = nextToken s, due = d, callback = cb\<rparr>]"
    by (auto simp: Schedule_map_def Let_def pq_push_def)
  have 1: "keys_match s'"
    using km by (simp add: keys_match_def m q n')
  have 2: "distinct (map token (scheduledCallbacks s'))"
    using d fresh by (simp add: q n')
  have 3: "token ` set (scheduledCallbacks s') \<subseteq> {1..int (Suc k)}"
    using b by (auto simp: q n')
  have 4: "nextToken s' = int32 (1 + int (Suc k))"
    by (simp add: nt n' add.commute)
  from 1 2 3 4 have "map_inv (Suc k) s'" by (simp add: map_inv_def)
  with t n' have "t = 1 + int k \<and> map_inv (Suc k) s'" by simp
  then show ?thesis by simp
qed

lemma exec_map_inv:
  assumes "exec_map c s = Inr (r, s')" and "map_inv k s" and "is_Schedule c \<longrightarrow> int k < INT_MAX"
  shows "(tokens [r] = [] \<and> map_inv k s') \<or> (is_Schedule c \<and> tokens [r] = [1 + int k] \<and> map_inv (Suc k) s')"
proof (cases c)
  case (Do_SetClock x)
  with assms(1) have "r = Returned" and "s' = s\<lparr>clock := x\<rparr>"
    by (simp_all add: SetClock_def)
  with assms(2) show ?thesis by (simp add: map_inv_def keys_match_def)
next
  case (Do_Schedule cb d)
  with assms(3) have lt: "int k < INT_MAX" by simp
  obtain t s1 where sch: "Schedule_map s cb d = (t, s1)" by (cases "Schedule_map s cb d")
  with assms(1) Do_Schedule have r: "r = Token t" and s1: "s1 = s'" by simp_all
  from Schedule_map_inv [OF assms(2) lt sch] r s1 Do_Schedule show ?thesis by auto
next
  case (Do_Cancel t)
  with assms show ?thesis by (auto simp: Cancel_map_inv)
next
  case Do_WakeUp
  with assms show ?thesis by (auto simp: WakeUp_def)
next
  case (Do_Worker g)
  with assms(1) obtain tr where w: "Worker_step_map g s = Inr (tr, s')" and r: "r = Moved tr"
    by (auto split: sum.splits)
  from Worker_step_map_inv [OF w assms(2)] r show ?thesis by simp
qed

lemma run_map_inv:
  assumes "run_map cs Impl_map_new = Inr (rs, s)" and "int (schedule_calls cs) \<le> INT_MAX"
  shows "map_inv (length (tokens rs)) s \<and> length (tokens rs) \<le> schedule_calls cs"
  using assms
proof (induction cs arbitrary: rs s rule: rev_induct)
  case Nil
  then show ?case by (auto simp: Impl_map_new_def map_inv_def keys_match_def int32_def)
next
  case (snoc c cs)
  from snoc.prems(1) obtain rs0 s0 r where run: "run_map cs Impl_map_new = Inr (rs0, s0)"
    and ex: "exec_map c s0 = Inr (r, s)" and rs: "rs = rs0 @ [r]"
    by (rule run_map_snoc)
  let ?k = "length (tokens rs0)"
  from snoc.prems(2) have le: "int (schedule_calls cs) \<le> INT_MAX"
    by (simp add: schedule_calls_snoc split: if_splits)
  from snoc.IH [OF run le] have inv0: "map_inv ?k s0" and k0: "?k \<le> schedule_calls cs"
    by simp_all
  from snoc.prems(2) k0 have lt: "is_Schedule c \<longrightarrow> int ?k < INT_MAX"
    by (auto simp: schedule_calls_snoc)
  from exec_map_inv [OF ex inv0 lt] show ?case
  proof
    assume "tokens [r] = [] \<and> map_inv ?k s"
    with rs k0 show ?thesis by (simp add: tokens_append schedule_calls_snoc)
  next
    assume "is_Schedule c \<and> tokens [r] = [1 + int ?k] \<and> map_inv (Suc ?k) s"
    with rs k0 show ?thesis by (simp add: tokens_append schedule_calls_snoc)
  qed
qed

section \<open>The claims\<close>

text \<open>
  Claim C1. When the worker finds the token of the earliest pending entry in the
  cancellation set, it removes the entry from the pending set and the token from the
  cancellation set, and calls nothing; afterwards the token is in neither structure.

  The revision with the map does so (\<open>Worker_body_map_draining_forgets\<close>, given that no
  two pending entries share a token). The revision with the set only pops the queue:
  nothing in that file ever erases from \<^verbatim>\<open>canceledCallbacks\<close>. On the scheduler reached
  by \<^verbatim>\<open>SetClock\<close>, \<^verbatim>\<open>Schedule(A, 10)\<close> and \<^verbatim>\<open>Cancel(1)\<close>, a pass of the worker at
  time 10 drops the entry and leaves token 1 in the set.
\<close>

theorem C1_set_draining_keeps_token:
  "Worker_step_set (MockClock 10)
     \<lparr>clock = Some (0::nat), scheduledCallbacks = [\<lparr>token = 1, due = 10, callback = ''A''\<rparr>],
      stopWorker = False, nextToken = 2, canceledCallbacks = {1}\<rparr>
   = Inr (Draining,
     \<lparr>clock = Some 0, scheduledCallbacks = [], stopWorker = False, nextToken = 2,
      canceledCallbacks = {1}\<rparr>)"
  by (simp add: Worker_step_set_def Worker_body_set_def pq_defs MockClock_def)

lemma C1_input_reached:
  "run_set [Do_SetClock (Some (0::nat)), Do_Schedule ''A'' 10, Do_Cancel 1] Impl_set_new
   = Inr ([Returned, Token 1, Returned],
     \<lparr>clock = Some (0::nat), scheduledCallbacks = [\<lparr>token = 1, due = 10, callback = ''A''\<rparr>],
      stopWorker = False, nextToken = 2, canceledCallbacks = {1}\<rparr>)"
  by (simp add: Impl_set_new_def SetClock_def Schedule_set_def Cancel_set_def pq_defs int32_def)

text \<open>
  Claim C2. At every firing the worker removes the entry, releases the lock, calls the
  callback with the lock not held and takes the lock again.

  The revision with the map runs \<^verbatim>\<open>lock.unlock(); callback(); lock.lock();\<close>
  (\<open>Worker_body_map_firing_unlocked\<close>). The revision with the set calls the callback
  between \<^verbatim>\<open>pop()\<close> and the end of the branch with the \<^verbatim>\<open>unique_lock\<close> of the
  worker still held: the callback is called under the lock.
\<close>

theorem C2_set_fires_holding_lock:
  "Worker_step_set (MockClock 10)
     \<lparr>clock = Some (0::nat), scheduledCallbacks = [\<lparr>token = 1, due = 10, callback = ''A''\<rparr>],
      stopWorker = False, nextToken = 2, canceledCallbacks = {}\<rparr>
   = Inr (Firing \<lparr>token = 1, due = 10, callback = ''A''\<rparr> [Invoke ''A''],
     \<lparr>clock = Some 0, scheduledCallbacks = [], stopWorker = False, nextToken = 2,
      canceledCallbacks = {}\<rparr>) \<and>
   invoked_locked True [Invoke ''A''] = [''A'']"
  by (simp add: Worker_step_set_def Worker_body_set_def pq_defs MockClock_def)

text \<open>
  Claim C3. A call of \<^verbatim>\<open>Schedule\<close> while no clock is set returns token 0 and changes
  nothing: the callback is not put in the queue and the token counter keeps its value;
  the callback is never called.

  Both revisions: the call returns 0 and the state it was given. On a new scheduler, as in
  the test \<^verbatim>\<open>ScheduleWithoutClock\<close>, every later pass of the worker finds the queue
  empty and stays idle, whatever the clocks read.
\<close>

theorem C3_schedule_without_clock:
  "clock sa = None \<Longrightarrow> clock sb = None \<Longrightarrow>
     Schedule_set sa cb d = (0, sa) \<and> Schedule_map sb cb' d' = (0, sb) \<and>
     Worker_step_set g (snd (Schedule_set Impl_set_new cb d)) = Inr (Idle, Impl_set_new) \<and>
     Worker_step_map g' (snd (Schedule_map Impl_map_new cb' d')) = Inr (Idle, Impl_map_new)"
  by (simp add: Schedule_set_def Schedule_map_def Worker_step_set_def Worker_body_set_def
      Worker_step_map_def Worker_body_map_def Impl_set_new_def Impl_map_new_def pq_empty_def)

theorem C3_schedule_without_clock_witness:
  "clock (Impl_set_new :: (string, nat) Impl_set) = None \<and>
   clock (Impl_map_new :: (string, nat) Impl_map) = None \<and>
   Schedule_set (Impl_set_new :: (string, nat) Impl_set) ''A'' 10 = (0, Impl_set_new) \<and>
   Schedule_map (Impl_map_new :: (string, nat) Impl_map) ''A'' 10 = (0, Impl_map_new) \<and>
   Worker_step_set (MockClock 10.001)
     (snd (Schedule_set (Impl_set_new :: (string, nat) Impl_set) ''A'' 10)) = Inr (Idle, Impl_set_new) \<and>
   Worker_step_map (MockClock 10.001)
     (snd (Schedule_map (Impl_map_new :: (string, nat) Impl_map) ''A'' 10)) = Inr (Idle, Impl_map_new)"
proof -
  have a: "clock (Impl_set_new :: (string, nat) Impl_set) = None"
    by (simp add: Impl_set_new_def)
  have b: "clock (Impl_map_new :: (string, nat) Impl_map) = None"
    by (simp add: Impl_map_new_def)
  from C3_schedule_without_clock [OF a b, of "''A''" 10 "''A''" 10 "MockClock 10.001" "MockClock 10.001"]
    a b show ?thesis
    by blast
qed

text \<open>
  Claim C4. \<^verbatim>\<open>Cancel\<close> always succeeds and is idempotent; with a token that is
  unknown, already fired or already cancelled it is a no-op: the pending set, the token
  counter and the future firing of all other registrations stay as they are.

  In the revision with the map this holds: \<^verbatim>\<open>Cancel\<close> looks the token up and returns
  the state it was given unless the token is pending and not yet cancelled
  (\<open>Cancel_map_noop\<close>, \<open>Cancel_map_keeps\<close>, \<open>Cancel_map_idem\<close>,
  \<open>Cancel_map_Worker_other\<close>). In the revision with the set \<^verbatim>\<open>Cancel\<close> inserts every
  token it is given; the queue and the counter stay (\<open>Cancel_set_keeps\<close>,
  \<open>Cancel_set_idem\<close>), but a token that no registration has yet is remembered, and the
  registration that later receives it is dropped by the worker without being called.
  \<^verbatim>\<open>SetClock; Cancel(1); Schedule(A, 0)\<close> returns token 1, and the pass of the worker at
  time 0 drains \<open>A\<close>; the same calls on the revision with the map fire it
  (\<open>C4_map_cancel_before_schedule\<close>).
\<close>

theorem C4_set_cancel_before_schedule:
  "run_set [Do_SetClock (Some (0::nat)), Do_Cancel 1, Do_Schedule ''A'' 0, Do_Worker (MockClock 0)]
     Impl_set_new
   = Inr ([Returned, Returned, Token 1, Moved Draining],
     \<lparr>clock = Some 0, scheduledCallbacks = [], stopWorker = False, nextToken = 2,
      canceledCallbacks = {1}\<rparr>)"
  by (simp add: Impl_set_new_def SetClock_def Cancel_set_def Schedule_set_def Worker_step_set_def
      Worker_body_set_def pq_defs int32_def MockClock_def)

text \<open>
  Claim C5. Every successful \<^verbatim>\<open>Schedule\<close> returns a positive token: the first
  returns 1, each later one a token greater than all before it, and no token is returned
  twice; 0 is returned only when no clock is set.

  The counter \<^verbatim>\<open>nextToken\<close> is an \<^verbatim>\<open>int\<close>, and the token is \<^verbatim>\<open>nextToken++\<close>. As
  amended: as long as \<^verbatim>\<open>Schedule\<close> has been called fewer than 2147483647 times, the
  tokens returned so far by the successful calls are 1, 2, 3, ... in this order (so they
  are positive, increasing and different from one another), and the next call returns 0
  if no clock is set and the next number otherwise. Stated for the histories of a new
  scheduler of \<^verbatim>\<open>src/src/Scheduler.cpp\<close>.
\<close>

theorem C5_tokens_count_up:
  assumes "run_set cs Impl_set_new = Inr (rs, s)" and "schedule_calls cs < 2147483647"
  shows "tokens rs = [1..int (length (tokens rs))] \<and>
         fst (Schedule_set s cb d) = (if clock s = None then 0 else 1 + int (length (tokens rs)))"
proof -
  from assms(2) have le: "int (schedule_calls cs) \<le> INT_MAX" by (simp add: INT_MAX_def)
  from run_set_tokens [OF assms(1) le]
  have t: "tokens rs = [1..int (length (tokens rs))]"
    and n: "nextToken s = int32 (1 + int (length (tokens rs)))"
    and k: "length (tokens rs) \<le> schedule_calls cs" by simp_all
  from k assms(2) have "1 + int (length (tokens rs)) \<le> INT_MAX" by (simp add: INT_MAX_def)
  with n have "nextToken s = 1 + int (length (tokens rs))"
    by (simp add: int32_id INT_MIN_def)
  then have "fst (Schedule_set s cb d) = (if clock s = None then 0 else 1 + int (length (tokens rs)))"
    by (simp add: Schedule_set_def Let_def)
  with t show ?thesis by simp
qed

theorem C5_tokens_count_up_witness:
  "run_set [Do_SetClock (Some (0::nat)), Do_Schedule ''A'' 10, Do_Schedule ''B'' 5,
            Do_Worker (MockClock 7), Do_Schedule ''C'' 7] Impl_set_new
   = Inr ([Returned, Token 1, Token 2,
           Moved (Firing \<lparr>token = 2, due = 5, callback = ''B''\<rparr> [Invoke ''B'']), Token 3],
     \<lparr>clock = Some 0,
      scheduledCallbacks = [\<lparr>token = 1, due = 10, callback = ''A''\<rparr>,
                            \<lparr>token = 3, due = 7, callback = ''C''\<rparr>],
      stopWorker = False, nextToken = 4, canceledCallbacks = {}\<rparr>) \<and>
   schedule_calls [Do_SetClock (Some (0::nat)), Do_Schedule ''A'' 10, Do_Schedule ''B'' 5,
            Do_Worker (MockClock 7), Do_Schedule ''C'' 7] < 2147483647 \<and>
   tokens [Returned, Token 1, Token 2,
           Moved (Firing \<lparr>token = 2, due = 5, callback = ''B''\<rparr> [Invoke ''B'']), Token 3]
     = [1, 2, 3] \<and>
   fst (Schedule_set
     \<lparr>clock = Some (0::nat),
      scheduledCallbacks = [\<lparr>token = 1, due = 10, callback = ''A''\<rparr>,
                            \<lparr>token = 3, due = 7, callback = ''C''\<rparr>],
      stopWorker = False, nextToken = 4, canceledCallbacks = {}\<rparr> ''D'' 1) = 4"
proof -
  let ?cs = "[Do_SetClock (Some (0::nat)), Do_Schedule ''A'' 10, Do_Schedule ''B'' 5,
            Do_Worker (MockClock 7), Do_Schedule ''C'' 7]"
  let ?rs = "[Returned, Token 1, Token 2,
           Moved (Firing \<lparr>token = 2, due = 5, callback = ''B''\<rparr> [Invoke ''B'']), Token 3]"
  let ?s = "\<lparr>clock = Some (0::nat),
      scheduledCallbacks = [\<lparr>token = 1, due = 10, callback = ''A''\<rparr>,
                            \<lparr>token = 3, due = 7, callback = ''C''\<rparr>],
      stopWorker = False, nextToken = 4, canceledCallbacks = {}\<rparr>"
  have r: "run_set ?cs Impl_set_new = Inr (?rs, ?s)"
    by (simp add: Impl_set_new_def SetClock_def Schedule_set_def Worker_step_set_def
        Worker_body_set_def pq_defs int32_def MockClock_def)
  have n: "schedule_calls ?cs < 2147483647" by (simp add: schedule_calls_def)
  from C5_tokens_count_up [OF r n, of "''D''" 1]
  have "tokens ?rs = [1, 2, 3]" and "fst (Schedule_set ?s ''D'' 1) = 4" by simp_all
  with r n show ?thesis by blast
qed

text \<open>
  Claim C5 as stated fails once the counter has passed the largest \<^verbatim>\<open>int\<close>: with
  the increment wrapping, the 2147483648th successful call on a scheduler returns
  \<open>- 2147483648\<close>, which is neither positive nor greater than the tokens before it.
\<close>

theorem C5_token_counter_wraps:
  "map_sum id (last \<circ> fst)
     (run_set (Do_SetClock (Some (0::nat))
                 # concat (replicate 2147483647 [Do_Schedule ''A'' 0, Do_Worker (MockClock 0)])
                 @ [Do_Schedule ''A'' 0]) Impl_set_new)
   = Inr (Token (- 2147483648))"
proof -
  let ?s0 = "SetClock (Impl_set_new :: (string, nat) Impl_set) (Some 0)"
  let ?s1 = "?s0\<lparr>nextToken := int32 (nextToken ?s0 + int 2147483647)\<rparr>"
  have h: "clock ?s0 = Some 0" "\<not> stopWorker ?s0" "scheduledCallbacks ?s0 = []"
    "canceledCallbacks ?s0 = {}" "int32 (nextToken ?s0) = nextToken ?s0"
    by (simp_all add: SetClock_def Impl_set_new_def int32_def)
  from Schedule_fire_set_times [OF h, of 2147483647 "''A''"]
  obtain rs where r: "run_set (concat (replicate 2147483647 [Do_Schedule ''A'' 0, Do_Worker (MockClock 0)])) ?s0
      = Inr (rs, ?s1)" by blast
  have n1: "nextToken ?s1 = - 2147483648" and c1: "clock ?s1 = Some 0"
    by (simp_all add: SetClock_def Impl_set_new_def int32_def)
  have "run_set [Do_Schedule ''A'' 0] ?s1 = Inr ([Token (- 2147483648)], snd (Schedule_set ?s1 ''A'' 0))"
    using n1 c1 by (simp add: Schedule_set_def Let_def)
  with r have "run_set (concat (replicate 2147483647 [Do_Schedule ''A'' 0, Do_Worker (MockClock 0)])
                 @ [Do_Schedule ''A'' 0]) ?s0
      = Inr (rs @ [Token (- 2147483648)], snd (Schedule_set ?s1 ''A'' 0))"
    by (simp only: run_set_append sum.case prod.case)
  then show ?thesis by simp
qed

text \<open>
  Claim C6. A callback due at \<open>D\<close> is never called while the clock reads less than
  \<open>D\<close>: the firing branch is taken only when due minus now is at most zero, and when
  due minus now is positive the worker blocks without removing or calling the entry.

  The last part fails for an entry that is cancelled: the worker blocks only when the
  entry is due in the future \<^emph>\<open>and\<close> not cancelled, and a cancelled entry is popped
  at once, however far in the future it is due. As amended: a firing takes the earliest
  entry and only when its due time minus the clock's time is at most zero. When that
  difference is positive the firing branch is not taken, and the pass is determined: a
  cancelled entry is popped without being called; an entry that is not cancelled stays in
  the queue and the worker blocks, provided the timeout \<open>\<lceil>wait * 1000\<rceil>\<close> fits an
  \<^verbatim>\<open>int\<close>; where it does not fit, the pass ends in the undefined conversion of claim
  C8 and nothing is said of what follows. Both revisions, every state with a clock and a
  pending entry.
\<close>

theorem C6_no_early_firing:
  assumes "clock sa = Some ca" and "\<not> pq_empty (scheduledCallbacks sa)"
    and "clock sb = Some cb" and "\<not> pq_empty (scheduledCallbacks sb)"
  shows "(\<forall>e tr s'. Worker_body_set g sa = Inr (Firing e tr, s') \<longrightarrow>
            e = pq_top (scheduledCallbacks sa) \<and> due e - g ca \<le> 0) \<and>
         (0 < due (pq_top (scheduledCallbacks sa)) - g ca \<longrightarrow>
            Worker_body_set g sa =
              (if token (pq_top (scheduledCallbacks sa)) \<in> canceledCallbacks sa
               then Inr (Draining, sa\<lparr>scheduledCallbacks := pq_pop (scheduledCallbacks sa)\<rparr>)
               else if \<lceil>(due (pq_top (scheduledCallbacks sa)) - g ca) * 1000\<rceil> \<le> INT_MAX
               then Inr (Waiting \<lceil>(due (pq_top (scheduledCallbacks sa)) - g ca) * 1000\<rceil>, sa)
               else Inl Timeout_not_int)) \<and>
         (\<forall>e tr s'. Worker_body_map h sb = Inr (Firing e tr, s') \<longrightarrow>
            e = pq_top (scheduledCallbacks sb) \<and> due e - h cb \<le> 0) \<and>
         (0 < due (pq_top (scheduledCallbacks sb)) - h cb \<longrightarrow>
            Worker_body_map h sb =
              (if isCallbackCanceled sb (token (pq_top (scheduledCallbacks sb))) = Some True
               then Inr (Draining,
                      sb\<lparr>isCallbackCanceled :=
                            erase (isCallbackCanceled sb) (token (pq_top (scheduledCallbacks sb))),
                         scheduledCallbacks := pq_pop (scheduledCallbacks sb)\<rparr>)
               else if \<lceil>(due (pq_top (scheduledCallbacks sb)) - h cb) * 1000\<rceil> \<le> INT_MAX
               then Inr (Waiting \<lceil>(due (pq_top (scheduledCallbacks sb)) - h cb) * 1000\<rceil>,
                      sb\<lparr>isCallbackCanceled :=
                            snd (index_map (isCallbackCanceled sb)
                                   (token (pq_top (scheduledCallbacks sb))))\<rparr>)
               else Inl Timeout_not_int))"
  using Worker_body_set_firing_due [of g sa _ _ _ ca, OF _ assms(1)]
    Worker_body_map_firing_due [of h sb _ _ _ cb, OF _ assms(3)]
    Worker_body_set_future [OF assms(2,1), of g]
    Worker_body_map_future [OF assms(4,3), of h]
  by blast


theorem C6_no_early_firing_witness:
  "clock \<lparr>clock = Some (0::nat), scheduledCallbacks = [\<lparr>token = 1, due = 10, callback = ''A''\<rparr>],
      stopWorker = False, nextToken = 2, canceledCallbacks = {}\<rparr> = Some 0 \<and>
   \<not> pq_empty [\<lparr>token = 1, due = 10, callback = ''A''\<rparr>] \<and>
   0 < due (pq_top [\<lparr>token = 1, due = 10, callback = ''A''\<rparr>]) - MockClock 5 (0::nat) \<and>
   Worker_body_set (MockClock 5)
     \<lparr>clock = Some (0::nat), scheduledCallbacks = [\<lparr>token = 1, due = 10, callback = ''A''\<rparr>],
      stopWorker = False, nextToken = 2, canceledCallbacks = {}\<rparr>
   = Inr (Waiting 5000,
     \<lparr>clock = Some 0, scheduledCallbacks = [\<lparr>token = 1, due = 10, callback = ''A''\<rparr>],
      stopWorker = False, nextToken = 2, canceledCallbacks = {}\<rparr>) \<and>
   Worker_body_map (MockClock 5)
     \<lparr>clock = Some (0::nat), scheduledCallbacks = [\<lparr>token = 1, due = 10, callback = ''A''\<rparr>],
      stopWorker = False, nextToken = 2, isCallbackCanceled = [1 \<mapsto> True]\<rparr>
   = Inr (Draining,
     \<lparr>clock = Some 0, scheduledCallbacks = [], stopWorker = False, nextToken = 2,
      isCallbackCanceled = Map.empty\<rparr>) \<and>
   Worker_body_map (MockClock 10)
     \<lparr>clock = Some (0::nat), scheduledCallbacks = [\<lparr>token = 1, due = 10, callback = ''A''\<rparr>],
      stopWorker = False, nextToken = 2, isCallbackCanceled = [1 \<mapsto> False]\<rparr>
   = Inr (Firing \<lparr>token = 1, due = 10, callback = ''A''\<rparr> [Unlock, Invoke ''A'', Lock],
     \<lparr>clock = Some 0, scheduledCallbacks = [], stopWorker = False, nextToken = 2,
      isCallbackCanceled = Map.empty\<rparr>) \<and>
   due \<lparr>token = 1, due = 10, callback = ''A''\<rparr> - MockClock 10 (0::nat) \<le> 0"
proof -
  let ?e = "\<lparr>token = 1, due = 10, callback = ''A''\<rparr>"
  let ?sa = "\<lparr>clock = Some (0::nat), scheduledCallbacks = [?e],
      stopWorker = False, nextToken = 2, canceledCallbacks = {}\<rparr>"
  let ?sc = "\<lparr>clock = Some (0::nat), scheduledCallbacks = [?e],
      stopWorker = False, nextToken = 2, isCallbackCanceled = [1 \<mapsto> True]\<rparr>"
  let ?sb = "\<lparr>clock = Some (0::nat), scheduledCallbacks = [?e],
      stopWorker = False, nextToken = 2, isCallbackCanceled = [1 \<mapsto> False]\<rparr>"
  let ?sb' = "\<lparr>clock = Some (0::nat), scheduledCallbacks = [],
      stopWorker = False, nextToken = 2, isCallbackCanceled = (Map.empty :: int \<rightharpoonup> bool)\<rparr>"
  have c: "clock ?sa = Some 0" "\<not> pq_empty (scheduledCallbacks ?sa)"
    "clock ?sc = Some 0" "\<not> pq_empty (scheduledCallbacks ?sc)"
    "clock ?sb = Some 0" "\<not> pq_empty (scheduledCallbacks ?sb)"
    by (simp_all add: pq_empty_def)
  have p: "0 < due (pq_top [?e]) - MockClock 5 (0::nat)"
    by (simp add: pq_top_def MockClock_def)
  from C6_no_early_firing [OF c(1,2,3,4), of "MockClock 5" "MockClock 5"]
  have a: "Worker_body_set (MockClock 5) ?sa = Inr (Waiting 5000, ?sa)"
    and d: "Worker_body_map (MockClock 5) ?sc = Inr (Draining, ?sb')"
    by (simp_all add: pq_defs MockClock_def INT_MAX_def erase_def)
  have b: "Worker_body_map (MockClock 10) ?sb = Inr (Firing ?e [Unlock, Invoke ''A'', Lock], ?sb')"
    by (simp add: Worker_body_map_def index_map_def erase_def pq_defs MockClock_def)
  from C6_no_early_firing [OF c(1,2,5,6), of "MockClock 10" "MockClock 10"] b
  have f: "due ?e - MockClock 10 (0::nat) \<le> 0"
    by blast
  from c(1) p a d b f show ?thesis by (simp add: pq_empty_def)
qed

text \<open>
  Claim C6 as stated fails on a cancelled entry due at 10 with the clock at 5: the pass
  pops it.
\<close>

theorem C6_cancelled_entry_removed_early:
  "0 < due (pq_top [\<lparr>token = 1, due = 10, callback = ''A''\<rparr>]) - MockClock 5 (0::nat) \<and>
   Worker_body_set (MockClock 5)
     \<lparr>clock = Some (0::nat), scheduledCallbacks = [\<lparr>token = 1, due = 10, callback = ''A''\<rparr>],
      stopWorker = False, nextToken = 2, canceledCallbacks = {1}\<rparr>
   = Inr (Draining,
     \<lparr>clock = Some 0, scheduledCallbacks = [], stopWorker = False, nextToken = 2,
      canceledCallbacks = {1}\<rparr>) \<and>
   Worker_body_map (MockClock 5)
     \<lparr>clock = Some (0::nat), scheduledCallbacks = [\<lparr>token = 1, due = 10, callback = ''A''\<rparr>],
      stopWorker = False, nextToken = 2, isCallbackCanceled = [1 \<mapsto> True]\<rparr>
   = Inr (Draining,
     \<lparr>clock = Some 0, scheduledCallbacks = [], stopWorker = False, nextToken = 2,
      isCallbackCanceled = Map.empty\<rparr>)"
  by (simp add: Worker_body_set_def Worker_body_map_def index_map_def erase_def pq_defs MockClock_def)

text \<open>
  Claim C7. Callbacks are called in non-decreasing order of their due times: of any two
  registrations with due times \<open>d1 < d2\<close> that both fire, the one due at \<open>d1\<close> fires no
  later than the one due at \<open>d2\<close>, because the worker always takes the entry of least
  due time.

  The worker takes the least of what is pending when it looks; a callback registered
  after a later-due one has fired is called after it (\<^verbatim>\<open>Schedule\<close> documents that a
  callback whose due time is past is called immediately). As amended: the entry the
  worker fires is pending and no pending entry is due earlier; hence over any history
  without a call of \<^verbatim>\<open>Schedule\<close>, that is for the registrations pending together, the
  callbacks are called in non-decreasing order of their due times. Stated for
  \<^verbatim>\<open>src/src/Scheduler.cpp\<close>.
\<close>

theorem C7_pending_fire_in_due_order:
  "(Worker_step_set g s = Inr (Firing e tr, s1) \<longrightarrow>
      e \<in> set (scheduledCallbacks s) \<and> (\<forall>x\<in>set (scheduledCallbacks s). due e \<le> due x)) \<and>
   (run_set cs s = Inr (rs, s') \<and> schedule_calls cs = 0 \<longrightarrow> sorted (map due (fired rs)))"
  using Worker_step_set_fires_least [of g s e tr s1] run_set_fired_sorted [of cs s rs s']
  by blast

theorem C7_pending_fire_in_due_order_witness:
  "Worker_step_set (MockClock 6)
     \<lparr>clock = Some (0::nat),
      scheduledCallbacks = [\<lparr>token = 1, due = 5, callback = ''A''\<rparr>,
                            \<lparr>token = 2, due = 3, callback = ''B''\<rparr>],
      stopWorker = False, nextToken = 3, canceledCallbacks = {}\<rparr>
   = Inr (Firing \<lparr>token = 2, due = 3, callback = ''B''\<rparr> [Invoke ''B''],
     \<lparr>clock = Some 0, scheduledCallbacks = [\<lparr>token = 1, due = 5, callback = ''A''\<rparr>],
      stopWorker = False, nextToken = 3, canceledCallbacks = {}\<rparr>) \<and>
   run_set [Do_Worker (MockClock 6), Do_Worker (MockClock 6)]
     \<lparr>clock = Some (0::nat),
      scheduledCallbacks = [\<lparr>token = 1, due = 5, callback = ''A''\<rparr>,
                            \<lparr>token = 2, due = 3, callback = ''B''\<rparr>],
      stopWorker = False, nextToken = 3, canceledCallbacks = {}\<rparr>
   = Inr ([Moved (Firing \<lparr>token = 2, due = 3, callback = ''B''\<rparr> [Invoke ''B'']),
           Moved (Firing \<lparr>token = 1, due = 5, callback = ''A''\<rparr> [Invoke ''A''])],
     \<lparr>clock = Some 0, scheduledCallbacks = [], stopWorker = False, nextToken = 3,
      canceledCallbacks = {}\<rparr>) \<and>
   schedule_calls [Do_Worker (MockClock 6) :: (string, nat) call, Do_Worker (MockClock 6)] = 0 \<and>
   due \<lparr>token = 2, due = 3, callback = ''B''\<rparr> \<le> due \<lparr>token = 1, due = 5, callback = ''A''\<rparr> \<and>
   sorted (map due [\<lparr>token = 2, due = 3, callback = ''B''\<rparr>, \<lparr>token = 1, due = 5, callback = ''A''\<rparr>])"
proof -
  let ?A = "\<lparr>token = 1, due = 5, callback = ''A''\<rparr>"
  let ?B = "\<lparr>token = 2, due = 3, callback = ''B''\<rparr>"
  let ?s = "\<lparr>clock = Some (0::nat), scheduledCallbacks = [?A, ?B],
      stopWorker = False, nextToken = 3, canceledCallbacks = {}\<rparr>"
  let ?s1 = "\<lparr>clock = Some (0::nat), scheduledCallbacks = [?A],
      stopWorker = False, nextToken = 3, canceledCallbacks = {}\<rparr>"
  let ?s2 = "\<lparr>clock = Some (0::nat), scheduledCallbacks = [],
      stopWorker = False, nextToken = 3, canceledCallbacks = {}\<rparr>"
  let ?cs = "[Do_Worker (MockClock 6) :: (string, nat) call, Do_Worker (MockClock 6)]"
  let ?rs = "[Moved (Firing ?B [Invoke ''B'']), Moved (Firing ?A [Invoke ''A''])]"
  have w: "Worker_step_set (MockClock 6) ?s = Inr (Firing ?B [Invoke ''B''], ?s1)"
    by (simp add: Worker_step_set_def Worker_body_set_def pq_defs MockClock_def)
  have r: "run_set ?cs ?s = Inr (?rs, ?s2)"
    by (simp add: Worker_step_set_def Worker_body_set_def pq_defs MockClock_def)
  have n: "schedule_calls ?cs = 0" by (simp add: schedule_calls_def)
  from C7_pending_fire_in_due_order [of "MockClock 6" ?s ?B "[Invoke ''B'']" ?s1 ?cs ?rs ?s2] w r n
  have "due ?B \<le> due ?A" and "sorted (map due (fired ?rs))" by simp_all
  with w r n show ?thesis by simp
qed

text \<open>
  Claim C7 as stated fails when the entry due earlier is registered late: a callback due
  at 5 fires with the clock at 10, then a callback due at 3 is scheduled and fires.
\<close>

theorem C7_late_registration_fires_later:
  "map_sum id (map due \<circ> fired \<circ> fst)
     (run_set [Do_SetClock (Some (0::nat)), Do_Schedule ''five'' 5, Do_Worker (MockClock 10),
               Do_Schedule ''three'' 3, Do_Worker (MockClock 10)] Impl_set_new)
   = Inr [5, 3]"
  by (simp add: Impl_set_new_def SetClock_def Schedule_set_def Worker_step_set_def
      Worker_body_set_def pq_defs int32_def MockClock_def)

text \<open>
  Claim C8. When the earliest entry is due in the future and not cancelled, the worker
  blocks with a timeout of exactly \<open>\<lceil>wait * 1000\<rceil>\<close> milliseconds.

  It does while that number fits an \<^verbatim>\<open>int\<close> (\<open>Worker_body_set_waiting\<close>,
  \<open>Worker_body_map_waiting\<close>, and \<open>ceil_ms_covers\<close> for the rounding upward). The code
  casts the number to \<^verbatim>\<open>int\<close> before building the duration; for a wait of 3000000
  seconds (some 35 days) it is 3000000000, which no \<^verbatim>\<open>int\<close> holds, and the cast is
  undefined. Both revisions.
\<close>

theorem C8_timeout_cast_undefined:
  "Worker_step_set (MockClock 0)
     \<lparr>clock = Some (0::nat), scheduledCallbacks = [\<lparr>token = 1, due = 3000000, callback = ''A''\<rparr>],
      stopWorker = False, nextToken = 2, canceledCallbacks = {}\<rparr>
   = Inl Timeout_not_int \<and>
   Worker_step_map (MockClock 0)
     \<lparr>clock = Some (0::nat), scheduledCallbacks = [\<lparr>token = 1, due = 3000000, callback = ''A''\<rparr>],
      stopWorker = False, nextToken = 2, isCallbackCanceled = [1 \<mapsto> False]\<rparr>
   = Inl Timeout_not_int"
  by (simp add: Worker_step_set_def Worker_body_set_def Worker_step_map_def Worker_body_map_def
      index_map_def pq_defs int_defs MockClock_def)

text \<open>
  Claim C9. With a pending entry the worker calls through the clock pointer without a
  test; that is safe only while no null clock is set after a successful \<^verbatim>\<open>Schedule\<close>:
  \<^verbatim>\<open>Schedule\<close> registers only under a clock that is not null, \<^verbatim>\<open>SetClock\<close> tests
  nothing and can bring the null pointer back while entries are pending.

  Both revisions. The body of the loop with a queue that is not empty ends in the fault
  \<open>Null_clock\<close> exactly when the clock is null; a successful \<^verbatim>\<open>Schedule\<close> leaves a
  clock that is not null, and \<^verbatim>\<open>SetClock(nullptr)\<close> right after it makes the next pass
  fault; from a state where the pointer is safe, no history without
  \<^verbatim>\<open>SetClock(nullptr)\<close> ends in that fault.
\<close>

theorem C9_null_clock:
  "(\<not> pq_empty (scheduledCallbacks sa) \<longrightarrow>
      (Worker_body_set g sa = Inl Null_clock) = (clock sa = None)) \<and>
   (\<not> pq_empty (scheduledCallbacks sb) \<longrightarrow>
      (Worker_body_map g sb = Inl Null_clock) = (clock sb = None)) \<and>
   (clock sa \<noteq> None \<longrightarrow>
      clock (snd (Schedule_set sa cb d)) \<noteq> None \<and>
      Worker_body_set g (SetClock (snd (Schedule_set sa cb d)) None) = Inl Null_clock) \<and>
   (clock sb \<noteq> None \<longrightarrow>
      clock (snd (Schedule_map sb cb d)) \<noteq> None \<and>
      Worker_body_map g (SetClock (snd (Schedule_map sb cb d)) None) = Inl Null_clock) \<and>
   (clock_safe sa \<and> Do_SetClock None \<notin> set cs \<longrightarrow> run_set cs sa \<noteq> Inl Null_clock) \<and>
   (clock_safe sb \<and> Do_SetClock None \<notin> set cs \<longrightarrow> run_map cs sb \<noteq> Inl Null_clock)"
proof -
  have a: "clock sa \<noteq> None \<longrightarrow>
      clock (snd (Schedule_set sa cb d)) \<noteq> None \<and>
      Worker_body_set g (SetClock (snd (Schedule_set sa cb d)) None) = Inl Null_clock"
  proof
    assume c: "clock sa \<noteq> None"
    from Schedule_set_clock [OF c, of cb d]
    have 1: "clock (snd (Schedule_set sa cb d)) \<noteq> None"
      and 2: "\<not> pq_empty (scheduledCallbacks (SetClock (snd (Schedule_set sa cb d)) None))"
      using c by (simp_all add: SetClock_def)
    from Worker_body_set_null [OF 2, of g] 1
    show "clock (snd (Schedule_set sa cb d)) \<noteq> None \<and>
      Worker_body_set g (SetClock (snd (Schedule_set sa cb d)) None) = Inl Null_clock"
      by (simp add: SetClock_def)
  qed
  have b: "clock sb \<noteq> None \<longrightarrow>
      clock (snd (Schedule_map sb cb d)) \<noteq> None \<and>
      Worker_body_map g (SetClock (snd (Schedule_map sb cb d)) None) = Inl Null_clock"
  proof
    assume c: "clock sb \<noteq> None"
    from Schedule_map_clock [OF c, of cb d]
    have 1: "clock (snd (Schedule_map sb cb d)) \<noteq> None"
      and 2: "\<not> pq_empty (scheduledCallbacks (SetClock (snd (Schedule_map sb cb d)) None))"
      using c by (simp_all add: SetClock_def)
    from Worker_body_map_null [OF 2, of g] 1
    show "clock (snd (Schedule_map sb cb d)) \<noteq> None \<and>
      Worker_body_map g (SetClock (snd (Schedule_map sb cb d)) None) = Inl Null_clock"
      by (simp add: SetClock_def)
  qed
  show ?thesis
    using a b Worker_body_set_null [of sa g] Worker_body_map_null [of sb g]
      run_set_clock_safe [of sa cs] run_map_clock_safe [of sb cs]
    by blast
qed

theorem C9_null_clock_witness:
  "clock (SetClock (Impl_set_new :: (string, nat) Impl_set) (Some 0)) \<noteq> None \<and>
   clock (SetClock (Impl_map_new :: (string, nat) Impl_map) (Some 0)) \<noteq> None \<and>
   clock (snd (Schedule_set (SetClock (Impl_set_new :: (string, nat) Impl_set) (Some 0)) ''A'' 10)) \<noteq> None \<and>
   clock (snd (Schedule_map (SetClock (Impl_map_new :: (string, nat) Impl_map) (Some 0)) ''A'' 10)) \<noteq> None \<and>
   \<not> pq_empty (scheduledCallbacks
     (SetClock (snd (Schedule_set (SetClock (Impl_set_new :: (string, nat) Impl_set) (Some 0)) ''A'' 10)) None)) \<and>
   \<not> pq_empty (scheduledCallbacks
     (SetClock (snd (Schedule_map (SetClock (Impl_map_new :: (string, nat) Impl_map) (Some 0)) ''A'' 10)) None)) \<and>
   Worker_body_set (MockClock 0)
     (SetClock (snd (Schedule_set (SetClock (Impl_set_new :: (string, nat) Impl_set) (Some 0)) ''A'' 10)) None)
     = Inl Null_clock \<and>
   Worker_body_map (MockClock 0)
     (SetClock (snd (Schedule_map (SetClock (Impl_map_new :: (string, nat) Impl_map) (Some 0)) ''A'' 10)) None)
     = Inl Null_clock \<and>
   clock_safe (Impl_set_new :: (string, nat) Impl_set) \<and>
   clock_safe (Impl_map_new :: (string, nat) Impl_map) \<and>
   Do_SetClock None \<notin> set [Do_SetClock (Some (0::nat)), Do_Schedule ''A'' 10, Do_Worker (MockClock 10)] \<and>
   run_set [Do_SetClock (Some (0::nat)), Do_Schedule ''A'' 10, Do_Worker (MockClock 10)] Impl_set_new
     \<noteq> Inl Null_clock \<and>
   run_map [Do_SetClock (Some (0::nat)), Do_Schedule ''A'' 10, Do_Worker (MockClock 10)] Impl_map_new
     \<noteq> Inl Null_clock"
proof -
  let ?sa = "SetClock (Impl_set_new :: (string, nat) Impl_set) (Some 0)"
  let ?sb = "SetClock (Impl_map_new :: (string, nat) Impl_map) (Some 0)"
  let ?ta = "SetClock (snd (Schedule_set ?sa ''A'' 10)) None"
  let ?tb = "SetClock (snd (Schedule_map ?sb ''A'' 10)) None"
  let ?cs = "[Do_SetClock (Some (0::nat)), Do_Schedule ''A'' 10, Do_Worker (MockClock 10)]"
  have h: "clock ?sa \<noteq> None" "clock ?sb \<noteq> None"
    "clock_safe (Impl_set_new :: (string, nat) Impl_set)"
    "clock_safe (Impl_map_new :: (string, nat) Impl_map)"
    "Do_SetClock None \<notin> set ?cs"
    by (simp_all add: SetClock_def clock_safe_def pq_empty_def Impl_set_new_def Impl_map_new_def)
  have t: "\<not> pq_empty (scheduledCallbacks ?ta)" "clock ?ta = None"
    "\<not> pq_empty (scheduledCallbacks ?tb)" "clock ?tb = None"
    by (simp_all add: SetClock_def Schedule_set_def Schedule_map_def Impl_set_new_def
        Impl_map_new_def pq_defs)
  from C9_null_clock [of ?ta "MockClock 0" ?tb "''A''" 10 "[]"] t
  have 1: "Worker_body_set (MockClock 0) ?ta = Inl Null_clock"
    and 2: "Worker_body_map (MockClock 0) ?tb = Inl Null_clock"
    by blast+
  from C9_null_clock [of ?sa "MockClock 0" ?sb "''A''" 10 "[]"] h(1,2)
  have 3: "clock (snd (Schedule_set ?sa ''A'' 10)) \<noteq> None"
    and 4: "clock (snd (Schedule_map ?sb ''A'' 10)) \<noteq> None"
    by blast+
  from C9_null_clock [of Impl_set_new "MockClock 0" Impl_map_new "''A''" 10 ?cs] h(3,4,5)
  have 5: "run_set ?cs Impl_set_new \<noteq> Inl Null_clock"
    and 6: "run_map ?cs Impl_map_new \<noteq> Inl Null_clock"
    by blast+
  from h t(1,3) 1 2 3 4 5 6 show ?thesis by blast
qed

text \<open>
  Claim C10. In the revision with the map, after every completed public operation and
  every completed pass of the worker the keys of \<^verbatim>\<open>isCallbackCanceled\<close> are the
  tokens in the pending queue.

  \<^verbatim>\<open>Schedule\<close> inserts into both, a firing or draining pass erases from both, and
  \<^verbatim>\<open>Cancel\<close> only sets the flag of a key that is there; the pass erases by token, so
  the two agree as long as no two pending entries share a token. As amended: in every
  history of a new scheduler with at most 2147483647 calls of \<^verbatim>\<open>Schedule\<close> (the
  counter has not wrapped), after every completed operation the keys of the map are the
  tokens of the pending entries.
\<close>

theorem C10_keys_are_pending_tokens:
  assumes "run_map cs Impl_map_new = Inr (rs, s)" and "schedule_calls cs \<le> 2147483647"
  shows "keys_match s"
proof -
  from assms(2) have "int (schedule_calls cs) \<le> INT_MAX" by (simp add: INT_MAX_def)
  from run_map_inv [OF assms(1) this] show ?thesis by (simp add: map_inv_def)
qed

theorem C10_keys_are_pending_tokens_witness:
  "run_map [Do_SetClock (Some (0::nat)), Do_Schedule ''A'' 10, Do_Schedule ''B'' 5, Do_Cancel 1,
            Do_Worker (MockClock 7)] Impl_map_new
   = Inr ([Returned, Token 1, Token 2, Returned,
           Moved (Firing \<lparr>token = 2, due = 5, callback = ''B''\<rparr> [Unlock, Invoke ''B'', Lock])],
     \<lparr>clock = Some 0, scheduledCallbacks = [\<lparr>token = 1, due = 10, callback = ''A''\<rparr>],
      stopWorker = False, nextToken = 3, isCallbackCanceled = [1 \<mapsto> True]\<rparr>) \<and>
   schedule_calls [Do_SetClock (Some (0::nat)), Do_Schedule ''A'' 10, Do_Schedule ''B'' 5, Do_Cancel 1,
            Do_Worker (MockClock 7)] \<le> 2147483647 \<and>
   keys_match
     \<lparr>clock = Some (0::nat), scheduledCallbacks = [\<lparr>token = 1, due = 10, callback = ''A''\<rparr>],
      stopWorker = False, nextToken = 3, isCallbackCanceled = [1 \<mapsto> True]\<rparr>"
proof -
  let ?cs = "[Do_SetClock (Some (0::nat)), Do_Schedule ''A'' 10, Do_Schedule ''B'' 5, Do_Cancel 1,
            Do_Worker (MockClock 7)]"
  let ?rs = "[Returned, Token 1, Token 2, Returned,
           Moved (Firing \<lparr>token = 2, due = 5, callback = ''B''\<rparr> [Unlock, Invoke ''B'', Lock])]"
  let ?s = "\<lparr>clock = Some (0::nat), scheduledCallbacks = [\<lparr>token = 1, due = 10, callback = ''A''\<rparr>],
      stopWorker = False, nextToken = 3, isCallbackCanceled = [1 \<mapsto> True]\<rparr>"
  have r: "run_map ?cs Impl_map_new = Inr (?rs, ?s)"
    by (simp add: Impl_map_new_def SetClock_def Schedule_map_def Cancel_map_def Worker_step_map_def
        Worker_body_map_def index_map_def erase_def pq_defs int32_def MockClock_def)
  have n: "schedule_calls ?cs \<le> 2147483647" by (simp add: schedule_calls_def)
  from C10_keys_are_pending_tokens [OF r n] r n show ?thesis by blast
qed

text \<open>
  Claim C10 as stated fails once the counter has gone round: an entry with token 1 stays
  pending (due at 100, the clock at 0) while 4294967295 further callbacks are scheduled
  and fired; the next \<^verbatim>\<open>Schedule\<close> returns token 1 again, and when that entry fires the
  worker erases key 1, which the entry still pending needs.
\<close>

theorem C10_keys_lost_after_wrap:
  "map_sum id (keys_match \<circ> snd)
     (run_map (Do_SetClock (Some (0::nat)) # Do_Schedule ''old'' 100
                 # concat (replicate 4294967295 [Do_Schedule ''x'' 0, Do_Worker (MockClock 0)])
                 @ [Do_Schedule ''new'' 0, Do_Worker (MockClock 0)]) Impl_map_new)
   = Inr False"
proof -
  let ?old = "\<lparr>token = 1, due = 100, callback = ''old''\<rparr>"
  let ?new = "\<lparr>token = 1, due = 0, callback = ''new''\<rparr>"
  let ?s0 = "\<lparr>clock = Some (0::nat), scheduledCallbacks = [?old], stopWorker = False,
      nextToken = 2, isCallbackCanceled = [1 \<mapsto> False]\<rparr>"
  let ?s1 = "\<lparr>clock = Some (0::nat), scheduledCallbacks = [?old], stopWorker = False,
      nextToken = 1, isCallbackCanceled = [1 \<mapsto> False]\<rparr>"
  let ?s3 = "\<lparr>clock = Some (0::nat), scheduledCallbacks = [?old], stopWorker = False,
      nextToken = 2, isCallbackCanceled = (Map.empty :: int \<rightharpoonup> bool)\<rparr>"
  let ?mid = "concat (replicate 4294967295 [Do_Schedule ''x'' 0, Do_Worker (MockClock 0)])"
  have start: "run_map [Do_SetClock (Some (0::nat)), Do_Schedule ''old'' 100] Impl_map_new
      = Inr ([Returned, Token 1], ?s0)"
    by (simp add: Impl_map_new_def SetClock_def Schedule_map_def pq_defs int32_def)
  have h: "clock ?s0 = Some 0" "\<not> stopWorker ?s0" "scheduledCallbacks ?s0 = [?old]"
    "isCallbackCanceled ?s0 = [1 \<mapsto> False]" "int32 (nextToken ?s0) = nextToken ?s0"
    by (simp_all add: int32_def)
  have no1: "\<forall>j<4294967295. int32 (nextToken ?s0 + int j) \<noteq> 1"
    using int32_not_1 by simp
  from Schedule_fire_map_times [OF h no1, of "''x''"]
  obtain rs where "run_map ?mid ?s0
      = Inr (rs, ?s0\<lparr>nextToken := int32 (nextToken ?s0 + int 4294967295)\<rparr>)" by blast
  then have r: "run_map ?mid ?s0 = Inr (rs, ?s1)" by (simp add: int32_def)
  have tail: "run_map [Do_Schedule ''new'' 0, Do_Worker (MockClock 0)] ?s1
      = Inr ([Token 1, Moved (Firing ?new [Unlock, Invoke ''new'', Lock])], ?s3)"
    by (simp add: Schedule_map_def Worker_step_map_def Worker_body_map_def index_map_def erase_def
        pq_defs int32_def MockClock_def)
  have "run_map (?mid @ [Do_Schedule ''new'' 0, Do_Worker (MockClock 0)]) ?s0
      = Inr (rs @ [Token 1, Moved (Firing ?new [Unlock, Invoke ''new'', Lock])], ?s3)"
    using r tail by (simp only: run_map_append sum.case prod.case)
  with start have "run_map ([Do_SetClock (Some (0::nat)), Do_Schedule ''old'' 100]
                 @ (?mid @ [Do_Schedule ''new'' 0, Do_Worker (MockClock 0)])) Impl_map_new
      = Inr ([Returned, Token 1] @ rs @ [Token 1, Moved (Firing ?new [Unlock, Invoke ''new'', Lock])], ?s3)"
    by (simp only: run_map_append sum.case prod.case)
  moreover have "\<not> keys_match ?s3" by (simp add: keys_match_def)
  ultimately show ?thesis by simp
qed

end
